theory Spec2Isabelle
  imports Complex_Main "HOL-Library.Word"
begin

section \<open>CPU topology of caffe: \<open>src/caffe/util/cpu_info.cpp\<close>\<close>

text \<open>
  The C++ type \<open>unsigned\<close> is a 32-bit word: addition wraps around. A
  \<open>std::vector\<close> is a list, a \<open>std::set<unsigned>\<close> a set of words whose
  \<open>size()\<close> is its cardinality.

  What the C++ standard leaves undefined, and the abort of \<open>LOG(FATAL)\<close>, are
  results of the model: a function that can reach one of them returns
  \<open>error + 'a\<close>.
\<close>

type_synonym unsigned = "32 word"

datatype error =
    DivisionByZero    \<comment> \<open>\<open>x % 0\<close>\<close>
  | SignedOverflow    \<comment> \<open>\<open>processorId++\<close> at \<open>INT_MAX\<close>\<close>
  | FloatConversion   \<comment> \<open>a \<open>double\<close> outside the range of \<open>unsigned\<close> converted to it\<close>
  | LogFatal          \<comment> \<open>\<open>LOG(FATAL)\<close>: the process aborts\<close>

definition INT_MAX :: nat where
  "INT_MAX = 2147483647"

subsection \<open>Processor and Collection\<close>

record Processor =
  processor :: unsigned
  physicalId :: unsigned
  siblings :: unsigned
  coreId :: unsigned
  cpuCores :: unsigned

text \<open>The constructor \<open>Processor::Processor()\<close> sets every field to 0.\<close>

definition Processor_ctor :: Processor where
  "Processor_ctor =
     \<lparr>processor = 0, physicalId = 0, siblings = 0, coreId = 0, cpuCores = 0\<rparr>"

text \<open>
  The fields of \<open>Collection\<close> that outlive parsing. \<open>currentProcessor\<close> is only
  the parser's cursor into \<open>processors\<close> and is not read after parsing.
\<close>

record Collection =
  processorSpeedMHz :: unsigned
  totalNumberOfSockets :: unsigned
  totalNumberOfCpuCores :: unsigned
  processors :: "Processor list"

definition getTotalNumberOfCpuCores :: "Collection \<Rightarrow> unsigned" where
  "getTotalNumberOfCpuCores c = totalNumberOfCpuCores c"

text \<open>\<open>processors.size()\<close> is a \<open>size_t\<close>; the getter returns \<open>unsigned\<close>.\<close>

definition getNumberOfProcessors :: "Collection \<Rightarrow> unsigned" where
  "getNumberOfProcessors c = of_nat (length (processors c))"

subsection \<open>Socket and core aggregation\<close>

text \<open>
  \<open>Collection::updateCpuInformation\<close>: nothing happens when the stored socket count
  equals the number of distinct ids passed in; otherwise the count is stored and the
  record's \<open>cpuCores\<close> is added to the total.
\<close>

definition updateCpuInformation :: "Collection \<Rightarrow> Processor \<Rightarrow> unsigned \<Rightarrow> Collection" where
  "updateCpuInformation c p numberOfUniquePhysicalId =
     (if totalNumberOfSockets c = numberOfUniquePhysicalId then c
      else c\<lparr>totalNumberOfSockets := numberOfUniquePhysicalId,
             totalNumberOfCpuCores := totalNumberOfCpuCores c + cpuCores p\<rparr>)"

text \<open>
  The loop of \<open>Collection::collectBasicCpuInformation\<close> over the records still to
  visit, with the set \<open>uniquePhysicalId\<close> as it stands. \<open>size()\<close> is a
  \<open>size_t\<close> and is converted to \<open>unsigned\<close> at the call.
\<close>

fun collectLoop :: "unsigned set \<Rightarrow> Processor list \<Rightarrow> Collection \<Rightarrow> Collection" where
  "collectLoop uniquePhysicalId [] c = c"
| "collectLoop uniquePhysicalId (p # ps) c =
     (let u = insert (physicalId p) uniquePhysicalId
      in collectLoop u ps (updateCpuInformation c p (of_nat (card u))))"

definition collectBasicCpuInformation :: "Collection \<Rightarrow> Collection" where
  "collectBasicCpuInformation c = collectLoop {} (processors c) c"

text \<open>
  The state in which the constructor \<open>Collection::Collection()\<close> calls
  \<open>collectBasicCpuInformation\<close>: both totals are still 0, the parser has filled in
  the records and the clock speed.
\<close>

definition parsedCollection :: "unsigned \<Rightarrow> Processor list \<Rightarrow> Collection" where
  "parsedCollection speed ps =
     \<lparr>processorSpeedMHz = speed, totalNumberOfSockets = 0,
      totalNumberOfCpuCores = 0, processors = ps\<rparr>"

definition Collection_ctor :: "unsigned \<Rightarrow> Processor list \<Rightarrow> Collection" where
  "Collection_ctor speed ps = collectBasicCpuInformation (parsedCollection speed ps)"

text \<open>
  For the statement of the aggregation: the records at which a socket id is seen for
  the first time, in source order, given the ids seen before.
\<close>

fun firstOfSocket :: "unsigned set \<Rightarrow> Processor list \<Rightarrow> Processor list" where
  "firstOfSocket seen [] = []"
| "firstOfSocket seen (p # ps) =
     (if physicalId p \<in> seen then firstOfSocket seen ps
      else p # firstOfSocket (insert (physicalId p) seen) ps)"

subsection \<open>The type \<open>double\<close>\<close>

text \<open>
  \<open>extractProcessorSpeedFromModelName\<close> computes with \<open>double\<close>. A finite
  \<open>double\<close> is the rational number it stands for (the two zeros are one value: the
  code cannot tell them apart), and every operation returns the exact result rounded
  to the nearest binary64 number, ties to even: 53 bits of precision, the least
  exponent \<open>-1074\<close> of a unit in the last place, infinity from \<open>2 ^ 1024\<close> on.
  An expression is evaluated in \<open>double\<close>, one operation after the other, as a
  compiler for x86-64 does.
\<close>

datatype double = Finite rat | PlusInf | MinusInf | NaN

text \<open>The number of binary digits of a positive integer.\<close>

function bitlen :: "int \<Rightarrow> int" where
  "bitlen a = (if a \<le> 0 then 0 else 1 + bitlen (a div 2))"
  by pat_completeness auto
termination
  by (relation "measure nat") auto

declare bitlen.simps [simp del]

definition pow2 :: "int \<Rightarrow> rat" where
  "pow2 e = (if 0 \<le> e then 2 ^ nat e else 1 / 2 ^ nat (- e))"

text \<open>For a positive \<open>x\<close>, the integer \<open>e\<close> with \<open>2 ^ e \<le> x < 2 ^ (e + 1)\<close>.\<close>

definition floorlog2 :: "rat \<Rightarrow> int" where
  "floorlog2 x =
     (let (a, b) = quotient_of x;
          e = bitlen a - bitlen b
      in if x < pow2 e then e - 1 else e)"

text \<open>Rounding to the nearest integer, a tie to the even one.\<close>

definition rne :: "rat \<Rightarrow> int" where
  "rne x =
     (let f = \<lfloor>x\<rfloor>; d = x - of_int f
      in if d < 1 / 2 then f
         else if 1 / 2 < d then f + 1
         else if even f then f else f + 1)"

text \<open>
  The nearest binary64 number: \<open>m * 2 ^ e\<close> with \<open>m\<close> of at most 53 bits (54
  when the rounding carries). It is at least \<open>2 ^ 1024\<close>, and so infinite, exactly
  when \<open>m\<close> has more than \<open>1024 - e\<close> bits.
\<close>

definition round_double :: "rat \<Rightarrow> double" where
  "round_double x =
     (if x = 0 then Finite 0
      else
        let a = \<bar>x\<bar>;
            e = max (floorlog2 a - 52) (- 1074);
            m = rne (a / pow2 e)
        in if 1024 - e < bitlen m then (if x < 0 then MinusInf else PlusInf)
           else Finite (if x < 0 then - (of_int m * pow2 e) else of_int m * pow2 e))"

text \<open>
  Negation, the sign, and the operations \<open>*\<close>, \<open>+\<close> and \<open><\<close> of
  IEEE 754 on finite numbers, infinities and NaN.
\<close>

fun dneg :: "double \<Rightarrow> double" where
  "dneg (Finite a) = Finite (- a)"
| "dneg PlusInf = MinusInf"
| "dneg MinusInf = PlusInf"
| "dneg NaN = NaN"

fun dsgn :: "double \<Rightarrow> int" where
  "dsgn (Finite a) = (if a < 0 then - 1 else if a = 0 then 0 else 1)"
| "dsgn PlusInf = 1"
| "dsgn MinusInf = - 1"
| "dsgn NaN = 0"

fun dmul :: "double \<Rightarrow> double \<Rightarrow> double" where
  "dmul (Finite a) (Finite b) = round_double (a * b)"
| "dmul NaN y = NaN"
| "dmul x NaN = NaN"
| "dmul x y =
     (if dsgn x * dsgn y = 0 then NaN
      else if 0 < dsgn x * dsgn y then PlusInf else MinusInf)"

fun dadd :: "double \<Rightarrow> double \<Rightarrow> double" where
  "dadd (Finite a) (Finite b) = round_double (a + b)"
| "dadd NaN y = NaN"
| "dadd x NaN = NaN"
| "dadd PlusInf MinusInf = NaN"
| "dadd MinusInf PlusInf = NaN"
| "dadd (Finite a) y = y"
| "dadd x y = x"

fun dless :: "double \<Rightarrow> double \<Rightarrow> bool" where
  "dless (Finite a) (Finite b) = (a < b)"
| "dless NaN y = False"
| "dless x NaN = False"
| "dless MinusInf y = (y \<noteq> MinusInf)"
| "dless x PlusInf = (x \<noteq> PlusInf)"
| "dless x y = False"

text \<open>
  The conversion of a \<open>double\<close> to \<open>unsigned\<close> truncates towards zero; it is
  undefined when the truncated value is not a value of \<open>unsigned\<close>.
\<close>

definition double_to_unsigned :: "double \<Rightarrow> error + unsigned" where
  "double_to_unsigned d =
     (case d of
        Finite x \<Rightarrow>
          if - 1 < x \<and> x < 2 ^ 32 then Inr (word_of_int (if 0 \<le> x then \<lfloor>x\<rfloor> else 0))
          else Inl FloatConversion
      | _ \<Rightarrow> Inl FloatConversion)"

subsection \<open>The C library\<close>

text \<open>
  A C string is the list of its characters up to the terminating NUL. \<open>strtod\<close>
  follows the C standard in the "C" locale: white space, a sign, then \<open>inf\<close>,
  \<open>infinity\<close> or \<open>nan\<close> in any case, a hexadecimal number with a binary
  exponent, or a decimal number with a decimal exponent; the result is the number
  read, correctly rounded, and the text after it. Without a number the result is 0
  and the text is the whole argument.
\<close>

definition isspace :: "char \<Rightarrow> bool" where
  "isspace c = (c \<in> set [CHR 0x20, CHR 0x09, CHR 0x0A, CHR 0x0B, CHR 0x0C, CHR 0x0D])"

definition isdigit :: "char \<Rightarrow> bool" where
  "isdigit c = (48 \<le> (of_char c :: int) \<and> (of_char c :: int) \<le> 57)"

definition isxdigit :: "char \<Rightarrow> bool" where
  "isxdigit c =
     (isdigit c \<or> (65 \<le> (of_char c :: int) \<and> (of_char c :: int) \<le> 70)
                \<or> (97 \<le> (of_char c :: int) \<and> (of_char c :: int) \<le> 102))"

definition isalpha :: "char \<Rightarrow> bool" where
  "isalpha c =
     ((65 \<le> (of_char c :: int) \<and> (of_char c :: int) \<le> 90)
      \<or> (97 \<le> (of_char c :: int) \<and> (of_char c :: int) \<le> 122))"

definition tolower :: "char \<Rightarrow> char" where
  "tolower c =
     (if 65 \<le> (of_char c :: int) \<and> (of_char c :: int) \<le> 90
      then char_of ((of_char c :: int) + 32) else c)"

definition digit_value :: "char \<Rightarrow> int" where
  "digit_value c =
     (if isdigit c then of_char c - 48
      else if 97 \<le> (of_char c :: int) then of_char c - 87
      else of_char c - 55)"

definition digits_value :: "int \<Rightarrow> string \<Rightarrow> int" where
  "digits_value base ds = foldl (\<lambda>a c. base * a + digit_value c) 0 ds"

definition pow10 :: "int \<Rightarrow> rat" where
  "pow10 e = (if 0 \<le> e then 10 ^ nat e else 1 / 10 ^ nat (- e))"

definition strtod_sign :: "string \<Rightarrow> bool \<times> string" where
  "strtod_sign s =
     (case s of
        [] \<Rightarrow> (False, s)
      | c # r \<Rightarrow>
          if c = CHR ''-'' then (True, r)
          else if c = CHR ''+'' then (False, r)
          else (False, s))"

definition strtod_exponent :: "char \<Rightarrow> string \<Rightarrow> int \<times> string" where
  "strtod_exponent marker s =
     (case s of
        [] \<Rightarrow> (0, s)
      | c # r \<Rightarrow>
          if tolower c = marker then
            (let (neg, r1) = strtod_sign r;
                 ds = takeWhile isdigit r1
             in if ds = [] then (0, s)
                else (if neg then - digits_value 10 ds else digits_value 10 ds,
                      dropWhile isdigit r1))
          else (0, s))"

definition strtod_mantissa :: "(char \<Rightarrow> bool) \<Rightarrow> string \<Rightarrow> (string \<times> string \<times> string) option" where
  "strtod_mantissa isdig s =
     (let ip = takeWhile isdig s;
          s1 = dropWhile isdig s;
          (fp, s2) =
            (case s1 of
               [] \<Rightarrow> ([], s1)
             | c # r \<Rightarrow>
                 if c = CHR ''.'' then (takeWhile isdig r, dropWhile isdig r)
                 else ([], s1))
      in if ip = [] \<and> fp = [] then None else Some (ip, fp, s2))"

definition strtod_decimal :: "string \<Rightarrow> (rat \<times> string) option" where
  "strtod_decimal s =
     (case strtod_mantissa isdigit s of
        None \<Rightarrow> None
      | Some (ip, fp, s2) \<Rightarrow>
          (let (ex, s3) = strtod_exponent (CHR ''e'') s2
           in Some (of_int (digits_value 10 (ip @ fp)) * pow10 (ex - int (length fp)), s3)))"

definition strtod_hex :: "string \<Rightarrow> (rat \<times> string) option" where
  "strtod_hex s =
     (case s of
        c0 # cx # r \<Rightarrow>
          if c0 = CHR ''0'' \<and> tolower cx = CHR ''x'' then
            (case strtod_mantissa isxdigit r of
               None \<Rightarrow> None
             | Some (ip, fp, s2) \<Rightarrow>
                 (let (ex, s3) = strtod_exponent (CHR ''p'') s2
                  in Some (of_int (digits_value 16 (ip @ fp)) * pow2 (ex - 4 * int (length fp)),
                           s3)))
          else None
      | _ \<Rightarrow> None)"

definition strtod_special :: "string \<Rightarrow> (double \<times> string) option" where
  "strtod_special s =
     (let l = map tolower s
      in if take 8 l = ''infinity'' then Some (PlusInf, drop 8 s)
         else if take 3 l = ''inf'' then Some (PlusInf, drop 3 s)
         else if take 3 l = ''nan'' then
           Some (NaN,
             (case drop 3 s of
                [] \<Rightarrow> []
              | c # t \<Rightarrow>
                  if c = CHR ''('' then
                    (case dropWhile (\<lambda>x. isdigit x \<or> isalpha x \<or> x = CHR ''_'') t of
                       [] \<Rightarrow> c # t
                     | c' # u \<Rightarrow> if c' = CHR '')'' then u else c # t)
                  else c # t))
         else None)"

definition strtod :: "string \<Rightarrow> double \<times> string" where
  "strtod nptr =
     (let (neg, s) = strtod_sign (dropWhile isspace nptr)
      in case strtod_special s of
           Some (d, endptr) \<Rightarrow> (if neg then dneg d else d, endptr)
         | None \<Rightarrow>
             (case strtod_hex s of
                Some (x, endptr) \<Rightarrow> (round_double (if neg then - x else x), endptr)
              | None \<Rightarrow>
                  (case strtod_decimal s of
                     Some (x, endptr) \<Rightarrow> (round_double (if neg then - x else x), endptr)
                   | None \<Rightarrow> (Finite 0, nptr))))"

text \<open>\<open>strstr\<close>: the first suffix of the text that starts with the needle.\<close>

fun strstr :: "string \<Rightarrow> string \<Rightarrow> string option" where
  "strstr [] needle = (if needle = [] then Some [] else None)"
| "strstr (c # cs) needle =
     (if take (length needle) (c # cs) = needle then Some (c # cs) else strstr cs needle)"

text \<open>\<open>strncmp a b n = 0\<close>: the strings agree on their first \<open>n\<close> characters.\<close>

definition strncmp_eq :: "string \<Rightarrow> string \<Rightarrow> nat \<Rightarrow> bool" where
  "strncmp_eq a b n = (take n a = take n b)"

subsection \<open>Frequency extraction\<close>

text \<open>The assignment of a \<open>double\<close> to \<open>processorSpeedMHz\<close>.\<close>

definition storeSpeed :: "Collection \<Rightarrow> double \<Rightarrow> error + Collection" where
  "storeSpeed c d =
     (case double_to_unsigned d of
        Inl e \<Rightarrow> Inl e
      | Inr v \<Rightarrow> Inr (c\<lparr>processorSpeedMHz := v\<rparr>))"

text \<open>
  \<open>Collection::extractProcessorSpeedFromModelName\<close>, called by the parser with the
  value of every \<open>model name\<close> line, in source order.
\<close>

definition extractProcessorSpeedFromModelName :: "string \<Rightarrow> Collection \<Rightarrow> error + Collection" where
  "extractProcessorSpeedFromModelName text c =
     (case strstr text ''@'' of
        None \<Rightarrow> Inr c
      | Some t \<Rightarrow>
          if processorSpeedMHz c \<noteq> 0 then Inr c
          else
            (let (speed, unit0) = strtod (tl t);
                 unit = dropWhile isspace unit0;
                 isMHz = strncmp_eq unit ''MHz'' 3;
                 isGHz = strncmp_eq unit ''GHz'' 3;
                 isGHzPossible = dless speed (Finite 100)
             in if isGHz \<or> (isGHzPossible \<and> \<not> isMHz)
                then storeSpeed c (dadd (dmul (Finite 1000) speed) (Finite (1 / 2)))
                else storeSpeed c (dadd speed (Finite (1 / 2)))))"

text \<open>The values of several \<open>model name\<close> lines, one call after the other.\<close>

fun extractAll :: "string list \<Rightarrow> Collection \<Rightarrow> error + Collection" where
  "extractAll [] c = Inr c"
| "extractAll (text # rest) c =
     (case extractProcessorSpeedFromModelName text c of
        Inl e \<Rightarrow> Inl e
      | Inr c' \<Rightarrow> extractAll rest c')"

subsection \<open>\<open>cpu_set_t\<close>\<close>

text \<open>
  A \<open>cpu_set_t\<close> is a set of processor numbers below \<open>CPU_SETSIZE\<close>. The macros
  of \<open>sched.h\<close> ignore a number from \<open>CPU_SETSIZE\<close> on: \<open>CPU_SET\<close> does nothing,
  \<open>CPU_ISSET\<close> is false.
\<close>

type_synonym cpu_set_t = "nat set"

definition CPU_SETSIZE :: nat where
  "CPU_SETSIZE = 1024"

definition CPU_ZERO :: cpu_set_t where
  "CPU_ZERO = {}"

definition CPU_SET :: "nat \<Rightarrow> cpu_set_t \<Rightarrow> cpu_set_t" where
  "CPU_SET cpu s = (if cpu < CPU_SETSIZE then insert cpu s else s)"

definition CPU_ISSET :: "nat \<Rightarrow> cpu_set_t \<Rightarrow> bool" where
  "CPU_ISSET cpu s = (cpu < CPU_SETSIZE \<and> cpu \<in> s)"

definition CPU_COUNT :: "cpu_set_t \<Rightarrow> nat" where
  "CPU_COUNT s = card (Set.filter (\<lambda>cpu. cpu < CPU_SETSIZE) s)"

subsection \<open>OpenMpManager\<close>

text \<open>
  The manager is a function-local static object: its storage is zero-initialised
  before the constructor runs, so \<open>isGpuEnabled\<close>, which the constructor does not
  assign, starts as \<open>false\<close>.
\<close>

record OpenMpManager =
  isGpuEnabled :: bool
  isAnyOpenMpEnvVarSpecified :: bool
  currentCpuSet :: cpu_set_t
  currentCoreSet :: cpu_set_t

definition zeroInitialized :: OpenMpManager where
  "zeroInitialized =
     \<lparr>isGpuEnabled = False, isAnyOpenMpEnvVarSpecified = False,
      currentCpuSet = {}, currentCoreSet = {}\<rparr>"

definition openMpEnvVars :: "string list" where
  "openMpEnvVars =
     [''OMP_CANCELLATION'', ''OMP_DISPLAY_ENV'', ''OMP_DEFAULT_DEVICE'', ''OMP_DYNAMIC'',
      ''OMP_MAX_ACTIVE_LEVELS'', ''OMP_MAX_TASK_PRIORITY'', ''OMP_NESTED'',
      ''OMP_NUM_THREADS'', ''OMP_PROC_BIND'', ''OMP_PLACES'', ''OMP_STACKSIZE'',
      ''OMP_SCHEDULE'', ''OMP_THREAD_LIMIT'', ''OMP_WAIT_POLICY'', ''GOMP_CPU_AFFINITY'',
      ''GOMP_DEBUG'', ''GOMP_STACKSIZE'', ''GOMP_SPINCOUNT'', ''GOMP_RTEMS_THREAD_POOLS'',
      ''KMP_AFFINITY'', ''KMP_NUM_THREADS'', ''MIC_KMP_AFFINITY'',
      ''MIC_OMP_NUM_THREADS'', ''MIC_OMP_PROC_BIND'', ''PHI_KMP_AFFINITY'',
      ''PHI_OMP_NUM_THREADS'', ''PHI_KMP_PLACE_THREADS'', ''MKL_NUM_THREADS'',
      ''MKL_DYNAMIC'', ''MKL_DOMAIN_NUM_THREADS'']"

text \<open>
  The environment maps a name to its value; \<open>getenv\<close> returns a null pointer for a
  name that is not set.
\<close>

type_synonym environment = "string \<Rightarrow> string option"

fun getOpenMpEnvVarsLoop :: "environment \<Rightarrow> string list \<Rightarrow> bool \<Rightarrow> bool" where
  "getOpenMpEnvVarsLoop getenv [] flag = flag"
| "getOpenMpEnvVarsLoop getenv (name # rest) flag =
     getOpenMpEnvVarsLoop getenv rest (if getenv name \<noteq> None then True else flag)"

definition getOpenMpEnvVars :: "environment \<Rightarrow> OpenMpManager \<Rightarrow> OpenMpManager" where
  "getOpenMpEnvVars getenv m =
     m\<lparr>isAnyOpenMpEnvVarSpecified := getOpenMpEnvVarsLoop getenv openMpEnvVars False\<rparr>"

text \<open>
  The loops \<open>for (int processorId = 0; processorId < numberOfProcessors;
  processorId++)\<close> run over the list \<open>[0..<numberOfProcessors]\<close>; the increment
  of an \<open>int\<close> that holds \<open>INT_MAX\<close> is undefined.
\<close>

fun getDefaultCpuSetLoop :: "nat list \<Rightarrow> cpu_set_t \<Rightarrow> error + cpu_set_t" where
  "getDefaultCpuSetLoop [] defaultCpuSet = Inr defaultCpuSet"
| "getDefaultCpuSetLoop (processorId # rest) defaultCpuSet =
     (if processorId = INT_MAX then Inl SignedOverflow
      else getDefaultCpuSetLoop rest (CPU_SET processorId defaultCpuSet))"

definition getDefaultCpuSet :: "Collection \<Rightarrow> error + cpu_set_t" where
  "getDefaultCpuSet c =
     getDefaultCpuSetLoop [0..<unat (getNumberOfProcessors c)] CPU_ZERO"

text \<open>
  \<open>sched_getaffinity\<close> either fails or fills in the affinity mask of the calling
  thread: the second argument is what the operating system answers.
\<close>

definition getCurrentCpuSet ::
  "cpu_set_t option \<Rightarrow> Collection \<Rightarrow> OpenMpManager \<Rightarrow> error + OpenMpManager" where
  "getCurrentCpuSet sched_getaffinity c m =
     (case sched_getaffinity of
        Some cpus \<Rightarrow> Inr (m\<lparr>currentCpuSet := cpus\<rparr>)
      | None \<Rightarrow>
          (case getDefaultCpuSet c of
             Inl e \<Rightarrow> Inl e
           | Inr cpus \<Rightarrow> Inr (m\<lparr>currentCpuSet := cpus\<rparr>)))"

text \<open>
  The loop of \<open>OpenMpManager::getCurrentCoreSet\<close>, with \<open>usedCoreSet\<close> and
  \<open>currentCoreSet\<close> as they stand. The remainder is taken for every processor of
  the current set, whatever the divisor.
\<close>

fun getCurrentCoreSetLoop ::
  "nat \<Rightarrow> cpu_set_t \<Rightarrow> nat list \<Rightarrow> cpu_set_t \<Rightarrow> cpu_set_t \<Rightarrow> error + cpu_set_t" where
  "getCurrentCoreSetLoop totalCores cpuSet [] usedCoreSet coreSet = Inr coreSet"
| "getCurrentCoreSetLoop totalCores cpuSet (processorId # rest) usedCoreSet coreSet =
     (if CPU_ISSET processorId cpuSet \<and> totalCores = 0 then Inl DivisionByZero
      else if processorId = INT_MAX then Inl SignedOverflow
      else if CPU_ISSET processorId cpuSet
              \<and> \<not> CPU_ISSET (processorId mod totalCores) usedCoreSet
      then getCurrentCoreSetLoop totalCores cpuSet rest
             (CPU_SET (processorId mod totalCores) usedCoreSet) (CPU_SET processorId coreSet)
      else getCurrentCoreSetLoop totalCores cpuSet rest usedCoreSet coreSet)"

definition getCurrentCoreSet :: "Collection \<Rightarrow> OpenMpManager \<Rightarrow> error + OpenMpManager" where
  "getCurrentCoreSet c m =
     (case getCurrentCoreSetLoop (unat (getTotalNumberOfCpuCores c)) (currentCpuSet m)
             [0..<unat (getNumberOfProcessors c)] CPU_ZERO CPU_ZERO of
        Inl e \<Rightarrow> Inl e
      | Inr coreSet \<Rightarrow> Inr (m\<lparr>currentCoreSet := coreSet\<rparr>))"

text \<open>The constructor \<open>OpenMpManager::OpenMpManager()\<close>.\<close>

definition OpenMpManager_ctor ::
  "environment \<Rightarrow> cpu_set_t option \<Rightarrow> Collection \<Rightarrow> error + OpenMpManager" where
  "OpenMpManager_ctor getenv sched_getaffinity c =
     (case getCurrentCpuSet sched_getaffinity c (getOpenMpEnvVars getenv zeroInitialized) of
        Inl e \<Rightarrow> Inl e
      | Inr m \<Rightarrow> getCurrentCoreSet c m)"

definition setGpuEnabled :: "OpenMpManager \<Rightarrow> OpenMpManager" where
  "setGpuEnabled m = m\<lparr>isGpuEnabled := True\<rparr>"

definition setGpuDisabled :: "OpenMpManager \<Rightarrow> OpenMpManager" where
  "setGpuDisabled m = m\<lparr>isGpuEnabled := False\<rparr>"

definition isThreadsBindAllowed :: "OpenMpManager \<Rightarrow> bool" where
  "isThreadsBindAllowed m = (\<not> isAnyOpenMpEnvVarSpecified m \<and> \<not> isGpuEnabled m)"

text \<open>
  The states of the manager: the one the constructor returns, and those that
  \<open>setGpuEnabled\<close> and \<open>setGpuDisabled\<close> lead to from there. No other function
  of the class assigns to a member.
\<close>

inductive reachable ::
  "environment \<Rightarrow> cpu_set_t option \<Rightarrow> Collection \<Rightarrow> OpenMpManager \<Rightarrow> bool"
  for getenv :: environment and sched_getaffinity :: "cpu_set_t option" and c :: Collection
  where
    constructed: "OpenMpManager_ctor getenv sched_getaffinity c = Inr m \<Longrightarrow>
      reachable getenv sched_getaffinity c m"
  | gpuEnabled: "reachable getenv sched_getaffinity c m \<Longrightarrow>
      reachable getenv sched_getaffinity c (setGpuEnabled m)"
  | gpuDisabled: "reachable getenv sched_getaffinity c m \<Longrightarrow>
      reachable getenv sched_getaffinity c (setGpuDisabled m)"

text \<open>
  The loop of \<open>OpenMpManager::selectAllCoreCpus\<close>. \<open>processorId\<close> is an
  \<open>int\<close> that is compared with and added to an \<open>unsigned\<close>: the sum wraps
  around at \<open>2 ^ 32\<close>. Nothing bounds the number of steps in the code, so the loop
  returns \<open>None\<close> when it runs forever.
\<close>

partial_function (option) selectAllCoreCpusLoop ::
  "nat \<Rightarrow> nat \<Rightarrow> cpu_set_t \<Rightarrow> nat \<Rightarrow> cpu_set_t \<Rightarrow> cpu_set_t option" where
  "selectAllCoreCpusLoop numberOfProcessors totalCores cpuSet processorId cpus =
     (if processorId < numberOfProcessors
      then selectAllCoreCpusLoop numberOfProcessors totalCores cpuSet
             ((processorId + totalCores) mod 2 ^ 32)
             (if CPU_ISSET processorId cpuSet then CPU_SET processorId cpus else cpus)
      else Some cpus)"

definition selectAllCoreCpus ::
  "Collection \<Rightarrow> OpenMpManager \<Rightarrow> cpu_set_t \<Rightarrow> nat \<Rightarrow> (error + cpu_set_t) option" where
  "selectAllCoreCpus c m cpus physicalCoreId =
     (if getTotalNumberOfCpuCores c = 0 then Some (Inl DivisionByZero)
      else map_option Inr
             (selectAllCoreCpusLoop (unat (getNumberOfProcessors c))
                (unat (getTotalNumberOfCpuCores c)) (currentCpuSet m)
                (physicalCoreId mod unat (getTotalNumberOfCpuCores c)) cpus))"

text \<open>
  The loop of \<open>OpenMpManager::getPhysicalCoreId\<close>; when it ends without a
  \<open>return\<close>, \<open>LOG(FATAL)\<close> aborts the process.
\<close>

fun getPhysicalCoreIdLoop :: "cpu_set_t \<Rightarrow> nat list \<Rightarrow> nat \<Rightarrow> error + nat" where
  "getPhysicalCoreIdLoop coreSet [] logicalCoreId = Inl LogFatal"
| "getPhysicalCoreIdLoop coreSet (processorId # rest) logicalCoreId =
     (if CPU_ISSET processorId coreSet \<and> logicalCoreId = 0 then Inr processorId
      else if processorId = INT_MAX then Inl SignedOverflow
      else getPhysicalCoreIdLoop coreSet rest
             (if CPU_ISSET processorId coreSet then logicalCoreId - 1 else logicalCoreId))"

definition getPhysicalCoreId :: "Collection \<Rightarrow> OpenMpManager \<Rightarrow> nat \<Rightarrow> error + nat" where
  "getPhysicalCoreId c m logicalCoreId =
     getPhysicalCoreIdLoop (currentCoreSet m) [0..<unat (getNumberOfProcessors c)]
       logicalCoreId"

subsection \<open>Threads\<close>

text \<open>
  What the manager changes outside itself: the number of threads OpenMP uses for the
  next parallel region, and the affinity mask of each thread. \<open>sched_setaffinity\<close>
  with thread id 0 sets the mask of the calling thread, which the model names by its
  argument \<open>self\<close>. The code does not look at the result of the call; the model
  keeps the mask that was asked for.

  \<open>omp_set_num_threads\<close> is the one of libgomp, which stores
  \<open>n > 0 ? n : 1\<close>: the number of threads of a region is never 0.
\<close>

record System =
  ompNumThreads :: nat
  affinity :: "nat \<Rightarrow> cpu_set_t"

definition omp_set_num_threads :: "nat \<Rightarrow> System \<Rightarrow> System" where
  "omp_set_num_threads n sys = sys\<lparr>ompNumThreads := (if 0 < n then n else 1)\<rparr>"

definition sched_setaffinity :: "nat \<Rightarrow> cpu_set_t \<Rightarrow> System \<Rightarrow> System" where
  "sched_setaffinity self cpus sys = sys\<lparr>affinity := (affinity sys)(self := cpus)\<rparr>"

definition setOpenMpThreadNumberLimit :: "OpenMpManager \<Rightarrow> System \<Rightarrow> System" where
  "setOpenMpThreadNumberLimit m sys = omp_set_num_threads (CPU_COUNT (currentCoreSet m)) sys"

definition bindCurrentThreadToLogicalCoreCpu ::
  "Collection \<Rightarrow> OpenMpManager \<Rightarrow> nat \<Rightarrow> nat \<Rightarrow> System \<Rightarrow> error + System" where
  "bindCurrentThreadToLogicalCoreCpu c m self logicalCoreId sys =
     (case getPhysicalCoreId c m logicalCoreId of
        Inl e \<Rightarrow> Inl e
      | Inr physicalCoreId \<Rightarrow>
          Inr (sched_setaffinity self (CPU_SET physicalCoreId CPU_ZERO) sys))"

definition bindCurrentThreadToLogicalCoreCpus ::
  "Collection \<Rightarrow> OpenMpManager \<Rightarrow> nat \<Rightarrow> nat \<Rightarrow> System \<Rightarrow> (error + System) option" where
  "bindCurrentThreadToLogicalCoreCpus c m self logicalCoreId sys =
     (case getPhysicalCoreId c m logicalCoreId of
        Inl e \<Rightarrow> Some (Inl e)
      | Inr physicalCoreId \<Rightarrow>
          (case selectAllCoreCpus c m CPU_ZERO physicalCoreId of
             None \<Rightarrow> None
           | Some (Inl e) \<Rightarrow> Some (Inl e)
           | Some (Inr cpus) \<Rightarrow> Some (Inr (sched_setaffinity self cpus sys))))"

definition bindCurrentThreadToNonPrimaryCoreIfPossible ::
  "Collection \<Rightarrow> OpenMpManager \<Rightarrow> nat \<Rightarrow> System \<Rightarrow> (error + System) option" where
  "bindCurrentThreadToNonPrimaryCoreIfPossible c m self sys =
     (if isThreadsBindAllowed m then
        (let totalNumberOfAvailableCores = CPU_COUNT (currentCoreSet m);
             logicalCoreToBindTo = (if 1 < totalNumberOfAvailableCores then 1 else 0)
         in bindCurrentThreadToLogicalCoreCpus c m self logicalCoreToBindTo sys)
      else Some (Inr sys))"

text \<open>
  The team of a parallel region without a \<open>num_threads\<close> clause: the thread that
  meets the region is its thread 0, and the runtime adds threads up to the number that
  was set. \<open>workers\<close> lists the threads the runtime can add, in the order of their
  thread numbers; when it has fewer than were asked for (dynamic adjustment, a thread
  limit, a nested region) the team is smaller, but it always has the calling thread.
\<close>

definition ompTeam :: "nat \<Rightarrow> nat list \<Rightarrow> System \<Rightarrow> nat list" where
  "ompTeam self workers sys = self # take (ompNumThreads sys - 1) workers"

text \<open>
  The parallel region of \<open>bindOpenMpThreads\<close>: the list holds the threads that run
  it, each with its \<open>omp_get_thread_num()\<close>. Each thread changes its own mask only,
  so the order in which the model lets them run does not matter; an abort in one thread
  aborts the process.
\<close>

fun parallelRegion ::
  "Collection \<Rightarrow> OpenMpManager \<Rightarrow> (nat \<times> nat) list \<Rightarrow> System \<Rightarrow> error + System" where
  "parallelRegion c m [] sys = Inr sys"
| "parallelRegion c m ((self, logicalCoreId) # rest) sys =
     (case bindCurrentThreadToLogicalCoreCpu c m self logicalCoreId sys of
        Inl e \<Rightarrow> Inl e
      | Inr sys' \<Rightarrow> parallelRegion c m rest sys')"

definition bindOpenMpThreads ::
  "Collection \<Rightarrow> OpenMpManager \<Rightarrow> nat \<Rightarrow> nat list \<Rightarrow> System \<Rightarrow> error + System" where
  "bindOpenMpThreads c m self workers sys =
     (if \<not> isThreadsBindAllowed m then Inr sys
      else
        (let sys1 = setOpenMpThreadNumberLimit m sys;
             team = ompTeam self workers sys1
         in parallelRegion c m (zip team [0..<length team]) sys1))"

text \<open>
  For the statements about the core set: the members of a set of processor numbers
  that are the least of the set in their class modulo the number of cores.
\<close>

definition lowestPerBucket :: "nat \<Rightarrow> nat set \<Rightarrow> nat set" where
  "lowestPerBucket totalCores P =
     {p \<in> P. \<forall>q\<in>P. q mod totalCores = p mod totalCores \<longrightarrow> p \<le> q}"

section \<open>Example inputs\<close>

text \<open>
  Two sockets of four cores with two threads each: sixteen logical processors, eight
  physical cores.
\<close>

definition twoSockets :: Collection where
  "twoSockets = Collection_ctor 2400
     (map (\<lambda>i. \<lparr>processor = of_nat i, physicalId = of_nat (i div 4 mod 2), siblings = 8,
                coreId = of_nat (i mod 4), cpuCores = 4\<rparr>) [0..<16])"

text \<open>
  One socket of two cores: two records. The affinity mask comes from the operating
  system and need not name the processors 0 and 1: in a container the topology source
  may list two processors while the mask names processors of the host.
\<close>

definition oneSocketTwoCores :: Collection where
  "oneSocketTwoCores = Collection_ctor 2400
     [\<lparr>processor = 0, physicalId = 0, siblings = 2, coreId = 0, cpuCores = 2\<rparr>,
      \<lparr>processor = 1, physicalId = 0, siblings = 2, coreId = 1, cpuCores = 2\<rparr>]"

section \<open>Properties of the aggregation\<close>

lemma of_nat_Suc_neq_unsigned: "(of_nat (Suc n) :: unsigned) \<noteq> of_nat n"
proof
  assume "(of_nat (Suc n) :: unsigned) = of_nat n"
  then have "(of_nat n :: unsigned) + 1 = of_nat n + 0" by simp
  then have "(1 :: unsigned) = 0" by (simp only: add_left_cancel)
  then show False by simp
qed

lemma collectLoop_processors: "processors (collectLoop u ps c) = processors c"
  by (induction ps arbitrary: u c) (simp_all add: Let_def updateCpuInformation_def)

lemma collectLoop_speed: "processorSpeedMHz (collectLoop u ps c) = processorSpeedMHz c"
  by (induction ps arbitrary: u c) (simp_all add: Let_def updateCpuInformation_def)

lemma collectLoop_invariant:
  assumes "finite u" and "totalNumberOfSockets c = of_nat (card u)"
  shows "totalNumberOfSockets (collectLoop u ps c) = of_nat (card (u \<union> physicalId ` set ps))
       \<and> totalNumberOfCpuCores (collectLoop u ps c) =
           totalNumberOfCpuCores c + sum_list (map cpuCores (firstOfSocket u ps))"
  using assms
proof (induction ps arbitrary: u c)
  case Nil
  then show ?case by simp
next
  case (Cons p ps)
  let ?u = "insert (physicalId p) u"
  let ?c = "updateCpuInformation c p (of_nat (card ?u))"
  have fin: "finite ?u" using Cons.prems(1) by simp
  have sock: "totalNumberOfSockets ?c = of_nat (card ?u)"
    by (simp add: updateCpuInformation_def)
  have step: "totalNumberOfCpuCores ?c =
      totalNumberOfCpuCores c + (if physicalId p \<in> u then 0 else cpuCores p)"
  proof (cases "physicalId p \<in> u")
    case True
    then have "?u = u" by auto
    then show ?thesis using Cons.prems(2) True by (simp add: updateCpuInformation_def)
  next
    case False
    then have "card ?u = Suc (card u)" using Cons.prems(1) by simp
    then have "totalNumberOfSockets c \<noteq> of_nat (card ?u)"
      using Cons.prems(2) of_nat_Suc_neq_unsigned [of "card u"] by simp
    then show ?thesis using False by (simp add: updateCpuInformation_def)
  qed
  have un: "?u \<union> physicalId ` set ps = u \<union> physicalId ` set (p # ps)" by auto
  from Cons.IH [OF fin sock] un step show ?case
    by (simp add: Let_def add.assoc insert_absorb)
qed

lemma unat_sum_list:
  "sum_list (map unat ws) < 2 ^ 32 \<Longrightarrow> unat (sum_list ws :: unsigned) = sum_list (map unat ws)"
proof (induction ws)
  case Nil
  then show ?case by simp
next
  case (Cons w ws)
  then have "sum_list (map unat ws) < 2 ^ 32" by simp
  then have ih: "unat (sum_list ws) = sum_list (map unat ws)" by (rule Cons.IH)
  have "unat w + unat (sum_list ws) < 2 ^ LENGTH(32)" using Cons.prems ih by simp
  then have "unat (w + sum_list ws) = unat w + unat (sum_list ws)"
    by (simp only: unat_add_lem)
  then show ?case using ih by simp
qed

lemma unat_card_ids:
  assumes "length ps < 2 ^ 32"
  shows "unat (of_nat (card (physicalId ` set ps)) :: unsigned) = card (physicalId ` set ps)"
proof -
  have "card (physicalId ` set ps) \<le> card (set ps)" by (rule card_image_le) simp
  also have "\<dots> \<le> length ps" by (rule card_length)
  finally have "card (physicalId ` set ps) < 2 ^ LENGTH(32)" using assms by simp
  then show ?thesis by (rule of_nat_inverse [OF refl])
qed

section \<open>Properties of the frequency extraction\<close>

lemma strstr_at:
  "strstr str ''@'' =
     (if CHR ''@'' \<in> set str then Some (dropWhile (\<lambda>x. x \<noteq> CHR ''@'') str) else None)"
  by (induction str) auto

lemma strstr_at_first:
  assumes "CHR ''@'' \<notin> set pre"
  shows "strstr (pre @ CHR ''@'' # rest) ''@'' = Some (CHR ''@'' # rest)"
proof -
  have "dropWhile (\<lambda>x. x \<noteq> CHR ''@'') (pre @ CHR ''@'' # rest) = CHR ''@'' # rest"
    using assms by (induction pre) auto
  then show ?thesis by (simp add: strstr_at)
qed

lemma extract_no_at:
  "strstr str ''@'' = None \<Longrightarrow> extractProcessorSpeedFromModelName str c = Inr c"
  by (simp add: extractProcessorSpeedFromModelName_def)

lemma extract_locked:
  "processorSpeedMHz c \<noteq> 0 \<Longrightarrow> extractProcessorSpeedFromModelName str c = Inr c"
  by (simp add: extractProcessorSpeedFromModelName_def split: option.splits)

lemma extract_unlocked:
  assumes "strstr str ''@'' = Some t" and "processorSpeedMHz c = 0"
    and "strtod (tl t) = (v, u)"
  shows "extractProcessorSpeedFromModelName str c =
           storeSpeed c
             (if take 3 (dropWhile isspace u) = ''GHz''
                 \<or> (take 3 (dropWhile isspace u) \<noteq> ''MHz'' \<and> dless v (Finite 100))
              then dadd (dmul (Finite 1000) v) (Finite (1 / 2))
              else dadd v (Finite (1 / 2)))"
  using assms by (auto simp: extractProcessorSpeedFromModelName_def strncmp_eq_def)

lemma storeSpeed_in_range:
  assumes "0 \<le> x" and "x < 2 ^ 32"
  shows "storeSpeed c (Finite x) = Inr (c\<lparr>processorSpeedMHz := word_of_int \<lfloor>x\<rfloor>\<rparr>)"
proof -
  have "- 1 < x" using assms(1) by simp
  with assms show ?thesis by (simp add: storeSpeed_def double_to_unsigned_def)
qed

lemma speed_zero_update: "processorSpeedMHz c = 0 \<Longrightarrow> c\<lparr>processorSpeedMHz := 0\<rparr> = c"
  by (cases c) simp

lemma extract_any_collection:
  assumes "processorSpeedMHz c = 0"
  shows "extractProcessorSpeedFromModelName str c =
           map_sum id (\<lambda>c'. c\<lparr>processorSpeedMHz := processorSpeedMHz c'\<rparr>)
             (extractProcessorSpeedFromModelName str (parsedCollection 0 []))"
proof (cases "strstr str ''@''")
  case None
  then show ?thesis
    using assms by (simp add: extract_no_at parsedCollection_def speed_zero_update)
next
  case (Some t)
  obtain v u where vu: "strtod (tl t) = (v, u)" by (cases "strtod (tl t)")
  have p0: "processorSpeedMHz (parsedCollection 0 []) = 0" by (simp add: parsedCollection_def)
  show ?thesis
    unfolding extract_unlocked [OF Some assms vu] extract_unlocked [OF Some p0 vu]
    by (simp add: storeSpeed_def split: sum.splits)
qed

lemma extract_value:
  assumes "extractProcessorSpeedFromModelName str (parsedCollection 0 []) =
             Inr (parsedCollection v [])"
    and "processorSpeedMHz c = 0"
  shows "extractProcessorSpeedFromModelName str c = Inr (c\<lparr>processorSpeedMHz := v\<rparr>)"
  unfolding extract_any_collection [OF assms(2), of str] assms(1)
  by (simp add: parsedCollection_def)

lemma extractAll_zero_first:
  assumes "processorSpeedMHz c = 0"
    and "extractProcessorSpeedFromModelName first c = Inr c1"
    and "processorSpeedMHz c1 = 0"
  shows "c1 = c \<and> extractAll [first, second] c = extractProcessorSpeedFromModelName second c"
proof -
  from extract_any_collection [OF assms(1), of first] assms(2)
  have "\<exists>v. c1 = c\<lparr>processorSpeedMHz := v\<rparr>"
    by (cases "extractProcessorSpeedFromModelName first (parsedCollection 0 [])") auto
  then obtain v where "c1 = c\<lparr>processorSpeedMHz := v\<rparr>" by blast
  with assms(3) have "c1 = c\<lparr>processorSpeedMHz := 0\<rparr>" by simp
  then have "c1 = c" using assms(1) by (simp add: speed_zero_update)
  then show ?thesis using assms(2) by (simp split: sum.splits)
qed

section \<open>Properties of the core set\<close>

lemma CPU_ISSET_ZERO [simp]: "\<not> CPU_ISSET p CPU_ZERO"
  by (simp add: CPU_ISSET_def CPU_ZERO_def)

lemma mod_less_CPU_SETSIZE: "p < CPU_SETSIZE \<Longrightarrow> p mod t < CPU_SETSIZE"
  by (rule le_less_trans [OF mod_less_eq_dividend])

lemma CPU_ISSET_bucket:
  "CPU_ISSET p cpuSet \<Longrightarrow> CPU_ISSET (p mod t) used = (p mod t \<in> used)"
  by (simp add: CPU_ISSET_def mod_less_CPU_SETSIZE)

lemma CPU_SET_permitted:
  "CPU_ISSET p cpuSet \<Longrightarrow>
     CPU_SET p s = insert p s \<and> CPU_SET (p mod t) s = insert (p mod t) s"
  by (simp add: CPU_ISSET_def CPU_SET_def mod_less_CPU_SETSIZE)

lemma CPU_COUNT_card: "s \<subseteq> {..<CPU_SETSIZE} \<Longrightarrow> CPU_COUNT s = card s"
proof -
  assume "s \<subseteq> {..<CPU_SETSIZE}"
  then have "Set.filter (\<lambda>cpu. cpu < CPU_SETSIZE) s = s" by auto
  then show ?thesis by (simp add: CPU_COUNT_def)
qed

lemma getCurrentCoreSetLoop_result:
  assumes "0 < t" and "sorted_wrt (<) ids" and "\<forall>p\<in>set ids. p < INT_MAX"
  shows "getCurrentCoreSetLoop t cpuSet ids used core =
           Inr (core \<union> {p \<in> set ids. CPU_ISSET p cpuSet \<and> p mod t \<notin> used \<and>
                  (\<forall>q\<in>set ids. CPU_ISSET q cpuSet \<and> q mod t = p mod t \<longrightarrow> p \<le> q)})"
  using assms(2,3)
proof (induction ids arbitrary: used core)
  case Nil
  then show ?case by simp
next
  case (Cons p rest)
  have less: "\<forall>q\<in>set rest. p < q" using Cons.prems(1) by simp
  have srt: "sorted_wrt (<) rest" using Cons.prems(1) by simp
  have bnd: "\<forall>q\<in>set rest. q < INT_MAX" using Cons.prems(2) by simp
  have pmax: "p \<noteq> INT_MAX" using Cons.prems(2) by simp
  show ?case
  proof (cases "CPU_ISSET p cpuSet \<and> p mod t \<notin> used")
    case True
    then have perm: "CPU_ISSET p cpuSet" and fresh: "p mod t \<notin> used" by simp_all
    have step: "getCurrentCoreSetLoop t cpuSet (p # rest) used core =
        getCurrentCoreSetLoop t cpuSet rest (insert (p mod t) used) (insert p core)"
      using perm fresh pmax assms(1)
      by (simp add: CPU_ISSET_bucket [OF perm] CPU_SET_permitted [OF perm])
    show ?thesis
      unfolding step Cons.IH [OF srt bnd]
      using less perm fresh by (auto simp: not_le)
  next
    case False
    have step: "getCurrentCoreSetLoop t cpuSet (p # rest) used core =
        getCurrentCoreSetLoop t cpuSet rest used core"
      using False pmax assms(1) by (auto simp: CPU_ISSET_bucket)
    show ?thesis
      unfolding step Cons.IH [OF srt bnd]
      using less False by (auto simp: not_le)
  qed
qed

lemma lowestPerBucket_subset: "lowestPerBucket t P \<subseteq> P"
  by (auto simp: lowestPerBucket_def)

lemma lowestPerBucket_card:
  assumes "finite P" and "0 < t"
  shows "card (lowestPerBucket t P) \<le> t"
proof -
  have inj: "inj_on (\<lambda>p. p mod t) (lowestPerBucket t P)"
    by (rule inj_onI) (auto simp: lowestPerBucket_def intro: antisym)
  have "(\<lambda>p. p mod t) ` lowestPerBucket t P \<subseteq> {..<t}" using assms(2) by auto
  then have "card ((\<lambda>p. p mod t) ` lowestPerBucket t P) \<le> card {..<t}"
    by (rule card_mono [rotated]) simp
  then show ?thesis by (simp add: card_image [OF inj])
qed

lemma getCurrentCoreSetLoop_upt:
  assumes "0 < t" and "n \<le> INT_MAX"
  shows "getCurrentCoreSetLoop t cpuSet [0..<n] CPU_ZERO CPU_ZERO =
           Inr (lowestPerBucket t {p. p < n \<and> CPU_ISSET p cpuSet})"
proof -
  have bnd: "\<forall>p\<in>set [0..<n]. p < INT_MAX" using assms(2) by auto
  have "getCurrentCoreSetLoop t cpuSet [0..<n] {} {} =
      Inr ({} \<union> {p \<in> set [0..<n]. CPU_ISSET p cpuSet \<and> p mod t \<notin> {} \<and>
             (\<forall>q\<in>set [0..<n]. CPU_ISSET q cpuSet \<and> q mod t = p mod t \<longrightarrow> p \<le> q)})"
    by (rule getCurrentCoreSetLoop_result [OF assms(1) sorted_wrt_upt bnd])
  moreover have "{} \<union> {p \<in> set [0..<n]. CPU_ISSET p cpuSet \<and> p mod t \<notin> {} \<and>
             (\<forall>q\<in>set [0..<n]. CPU_ISSET q cpuSet \<and> q mod t = p mod t \<longrightarrow> p \<le> q)}
      = lowestPerBucket t {p. p < n \<and> CPU_ISSET p cpuSet}"
    by (auto simp: lowestPerBucket_def)
  ultimately show ?thesis by (simp add: CPU_ZERO_def)
qed

lemma unat_total_pos: "getTotalNumberOfCpuCores c \<noteq> 0 \<Longrightarrow> 0 < unat (getTotalNumberOfCpuCores c)"
  by (simp add: unat_gt_0)

lemma getCurrentCoreSet_eq:
  assumes "getTotalNumberOfCpuCores c \<noteq> 0"
    and "unat (getNumberOfProcessors c) \<le> INT_MAX"
  shows "getCurrentCoreSet c m =
           Inr (m\<lparr>currentCoreSet :=
                  lowestPerBucket (unat (getTotalNumberOfCpuCores c))
                    {p. p < unat (getNumberOfProcessors c) \<and> CPU_ISSET p (currentCpuSet m)}\<rparr>)"
  by (simp add: getCurrentCoreSet_def
        getCurrentCoreSetLoop_upt [OF unat_total_pos [OF assms(1)] assms(2)])

section \<open>Properties of the constructor\<close>

lemma getOpenMpEnvVarsLoop_eq:
  "getOpenMpEnvVarsLoop getenv names flag = (flag \<or> (\<exists>name\<in>set names. getenv name \<noteq> None))"
  by (induction names arbitrary: flag) auto

lemma getDefaultCpuSetLoop_Inr:
  "getDefaultCpuSetLoop ids s = Inr r \<Longrightarrow>
     INT_MAX \<notin> set ids \<and> r = s \<union> {p \<in> set ids. p < CPU_SETSIZE}"
  by (induction ids arbitrary: s) (auto simp: CPU_SET_def split: if_splits)

lemma getDefaultCpuSetLoop_total:
  "INT_MAX \<notin> set ids \<Longrightarrow> \<exists>r. getDefaultCpuSetLoop ids s = Inr r"
  by (induction ids arbitrary: s) auto

lemma getCurrentCoreSetLoop_Inr:
  "getCurrentCoreSetLoop t cpuSet ids used core = Inr r \<Longrightarrow>
     INT_MAX \<notin> set ids \<and> (t = 0 \<longrightarrow> (\<forall>p\<in>set ids. \<not> CPU_ISSET p cpuSet))"
  by (induction ids arbitrary: used core) (auto split: if_splits)

lemma INT_MAX_upt: "INT_MAX \<notin> set [0..<n] \<longleftrightarrow> n \<le> INT_MAX"
  by auto

lemma getCurrentCoreSet_Inr:
  assumes "getCurrentCoreSet c m = Inr m'"
  shows "unat (getNumberOfProcessors c) \<le> INT_MAX
       \<and> m' = m\<lparr>currentCoreSet :=
                  lowestPerBucket (unat (getTotalNumberOfCpuCores c))
                    {p. p < unat (getNumberOfProcessors c) \<and> CPU_ISSET p (currentCpuSet m)}\<rparr>
       \<and> (getTotalNumberOfCpuCores c = 0 \<longrightarrow>
            {p. p < unat (getNumberOfProcessors c) \<and> CPU_ISSET p (currentCpuSet m)} = {})"
proof -
  let ?n = "unat (getNumberOfProcessors c)" and ?t = "unat (getTotalNumberOfCpuCores c)"
  from assms obtain r where
    loop: "getCurrentCoreSetLoop ?t (currentCpuSet m) [0..<?n] CPU_ZERO CPU_ZERO = Inr r"
    by (auto simp: getCurrentCoreSet_def split: sum.splits)
  from getCurrentCoreSetLoop_Inr [OF loop]
  have n: "?n \<le> INT_MAX"
    and zero: "?t = 0 \<longrightarrow> (\<forall>p\<in>set [0..<?n]. \<not> CPU_ISSET p (currentCpuSet m))"
    by (simp_all add: INT_MAX_upt)
  have empty: "getTotalNumberOfCpuCores c = 0 \<longrightarrow>
      {p. p < ?n \<and> CPU_ISSET p (currentCpuSet m)} = {}"
    using zero by auto
  show ?thesis
  proof (cases "getTotalNumberOfCpuCores c = 0")
    case True
    then have t0: "?t = 0" by simp
    have "getCurrentCoreSetLoop 0 (currentCpuSet m) ids used core = Inr core"
      if "\<forall>p\<in>set ids. \<not> CPU_ISSET p (currentCpuSet m)" "INT_MAX \<notin> set ids"
      for ids used core
      using that by (induction ids arbitrary: used core) auto
    from this [of "[0..<?n]" CPU_ZERO CPU_ZERO] zero t0 n loop
    have "r = {}" by (simp add: INT_MAX_upt CPU_ZERO_def)
    moreover have "lowestPerBucket ?t {p. p < ?n \<and> CPU_ISSET p (currentCpuSet m)} = {}"
      using empty True by (simp add: lowestPerBucket_def)
    ultimately show ?thesis using assms loop n empty
      by (simp add: getCurrentCoreSet_def)
  next
    case False
    from getCurrentCoreSet_eq [OF False n, of m] assms n empty
    show ?thesis by simp
  qed
qed

lemma OpenMpManager_ctor_Inr:
  assumes "OpenMpManager_ctor getenv aff c = Inr m"
  shows "\<not> isGpuEnabled m
       \<and> isAnyOpenMpEnvVarSpecified m = (\<exists>name\<in>set openMpEnvVars. getenv name \<noteq> None)
       \<and> currentCpuSet m =
           (case aff of
              Some cpus \<Rightarrow> cpus
            | None \<Rightarrow> {p. p < unat (getNumberOfProcessors c) \<and> p < CPU_SETSIZE})
       \<and> unat (getNumberOfProcessors c) \<le> INT_MAX
       \<and> currentCoreSet m =
           lowestPerBucket (unat (getTotalNumberOfCpuCores c))
             {p. p < unat (getNumberOfProcessors c) \<and> CPU_ISSET p (currentCpuSet m)}
       \<and> (getTotalNumberOfCpuCores c = 0 \<longrightarrow>
            {p. p < unat (getNumberOfProcessors c) \<and> CPU_ISSET p (currentCpuSet m)} = {})"
proof -
  let ?m0 = "getOpenMpEnvVars getenv zeroInitialized"
  from assms obtain m1 where
    m1: "getCurrentCpuSet aff c ?m0 = Inr m1" and m: "getCurrentCoreSet c m1 = Inr m"
    by (auto simp: OpenMpManager_ctor_def split: sum.splits)
  have cpu: "currentCpuSet m1 =
      (case aff of Some cpus \<Rightarrow> cpus
       | None \<Rightarrow> {p. p < unat (getNumberOfProcessors c) \<and> p < CPU_SETSIZE})"
    using m1
    by (auto simp: getCurrentCpuSet_def getDefaultCpuSet_def CPU_ZERO_def
        split: option.splits sum.splits dest!: getDefaultCpuSetLoop_Inr)
  have flags: "isGpuEnabled m1 = isGpuEnabled ?m0
      \<and> isAnyOpenMpEnvVarSpecified m1 = isAnyOpenMpEnvVarSpecified ?m0"
    using m1 by (auto simp: getCurrentCpuSet_def split: option.splits sum.splits)
  have rest: "isGpuEnabled m1 = False"
      "isAnyOpenMpEnvVarSpecified m1 = (\<exists>name\<in>set openMpEnvVars. getenv name \<noteq> None)"
    using flags by (simp_all add: getOpenMpEnvVars_def zeroInitialized_def getOpenMpEnvVarsLoop_eq)
  from getCurrentCoreSet_Inr [OF m] cpu rest show ?thesis by simp
qed

lemma OpenMpManager_ctor_returns:
  assumes "getTotalNumberOfCpuCores c \<noteq> 0" and "unat (getNumberOfProcessors c) \<le> INT_MAX"
  shows "\<exists>m. OpenMpManager_ctor getenv aff c = Inr m"
proof -
  have "\<exists>m1. getCurrentCpuSet aff c (getOpenMpEnvVars getenv zeroInitialized) = Inr m1"
  proof (cases aff)
    case None
    from getDefaultCpuSetLoop_total [of "[0..<unat (getNumberOfProcessors c)]" CPU_ZERO] assms(2)
    obtain r where "getDefaultCpuSet c = Inr r"
      by (auto simp: getDefaultCpuSet_def)
    with None show ?thesis by (simp add: getCurrentCpuSet_def)
  next
    case (Some cpus)
    then show ?thesis by (simp add: getCurrentCpuSet_def)
  qed
  then obtain m1 where
    "getCurrentCpuSet aff c (getOpenMpEnvVars getenv zeroInitialized) = Inr m1" ..
  then show ?thesis
    by (simp add: OpenMpManager_ctor_def getCurrentCoreSet_eq [OF assms])
qed

lemma reachable_facts:
  assumes "reachable getenv aff c m"
  shows "isAnyOpenMpEnvVarSpecified m = (\<exists>name\<in>set openMpEnvVars. getenv name \<noteq> None)
       \<and> unat (getNumberOfProcessors c) \<le> INT_MAX
       \<and> currentCoreSet m =
           lowestPerBucket (unat (getTotalNumberOfCpuCores c))
             {p. p < unat (getNumberOfProcessors c) \<and> CPU_ISSET p (currentCpuSet m)}
       \<and> (getTotalNumberOfCpuCores c = 0 \<longrightarrow>
            {p. p < unat (getNumberOfProcessors c) \<and> CPU_ISSET p (currentCpuSet m)} = {})
       \<and> (\<exists>m0. OpenMpManager_ctor getenv aff c = Inr m0
              \<and> currentCpuSet m = currentCpuSet m0 \<and> currentCoreSet m = currentCoreSet m0)"
  using assms
proof (induction rule: reachable.induct)
  case (constructed m)
  from OpenMpManager_ctor_Inr [OF this] this show ?case by auto
next
  case (gpuEnabled m)
  then obtain m0 where "OpenMpManager_ctor getenv aff c = Inr m0"
    "currentCpuSet m = currentCpuSet m0" "currentCoreSet m = currentCoreSet m0" by blast
  with gpuEnabled.IH show ?case unfolding setGpuEnabled_def
    by (intro conjI exI [of _ m0]) simp_all
next
  case (gpuDisabled m)
  then obtain m0 where "OpenMpManager_ctor getenv aff c = Inr m0"
    "currentCpuSet m = currentCpuSet m0" "currentCoreSet m = currentCoreSet m0" by blast
  with gpuDisabled.IH show ?case unfolding setGpuDisabled_def
    by (intro conjI exI [of _ m0]) simp_all
qed

lemma reachable_coreSet_bounds:
  assumes "reachable getenv aff c m"
  shows "currentCoreSet m \<subseteq> {p. p < unat (getNumberOfProcessors c) \<and> CPU_ISSET p (currentCpuSet m)}"
    and "finite (currentCoreSet m)"
    and "CPU_COUNT (currentCoreSet m) = card (currentCoreSet m)"
proof -
  let ?P = "{p. p < unat (getNumberOfProcessors c) \<and> CPU_ISSET p (currentCpuSet m)}"
  from reachable_facts [OF assms]
  have eq: "currentCoreSet m = lowestPerBucket (unat (getTotalNumberOfCpuCores c)) ?P" by simp
  show sub: "currentCoreSet m \<subseteq> ?P" unfolding eq by (rule lowestPerBucket_subset)
  have "finite ?P" by simp
  with sub show "finite (currentCoreSet m)" by (rule finite_subset)
  have "currentCoreSet m \<subseteq> {..<CPU_SETSIZE}" using sub by (auto simp: CPU_ISSET_def)
  then show "CPU_COUNT (currentCoreSet m) = card (currentCoreSet m)" by (rule CPU_COUNT_card)
qed

section \<open>Properties of \<open>getPhysicalCoreId\<close>\<close>

lemma getPhysicalCoreIdLoop_filter:
  "INT_MAX \<notin> set ids \<Longrightarrow>
     getPhysicalCoreIdLoop cs ids k =
       (if k < length (filter (\<lambda>p. CPU_ISSET p cs) ids)
        then Inr (filter (\<lambda>p. CPU_ISSET p cs) ids ! k) else Inl LogFatal)"
proof (induction ids arbitrary: k)
  case Nil
  then show ?case by simp
next
  case (Cons p ids)
  then have p: "p \<noteq> INT_MAX" and ids: "INT_MAX \<notin> set ids" by auto
  show ?case
  proof (cases "CPU_ISSET p cs")
    case True
    show ?thesis
    proof (cases k)
      case 0
      with True show ?thesis by simp
    next
      case (Suc j)
      with True p Cons.IH [OF ids, of j] show ?thesis by simp
    qed
  next
    case False
    with p Cons.IH [OF ids, of k] show ?thesis by simp
  qed
qed

lemma filter_upt_sorted_list_of_set:
  assumes "s \<subseteq> {p. p < n \<and> p < CPU_SETSIZE}"
  shows "filter (\<lambda>p. CPU_ISSET p s) [0..<n] = sorted_list_of_set s"
proof (rule sorted_distinct_set_unique)
  show "sorted (filter (\<lambda>p. CPU_ISSET p s) [0..<n])" by (simp add: sorted_wrt_filter)
  show "distinct (filter (\<lambda>p. CPU_ISSET p s) [0..<n])" by simp
  have fin: "finite s" by (rule finite_subset [OF assms]) simp
  show "sorted (sorted_list_of_set s)" by simp
  show "distinct (sorted_list_of_set s)" by simp
  show "set (filter (\<lambda>p. CPU_ISSET p s) [0..<n]) = set (sorted_list_of_set s)"
    using assms fin by (auto simp: CPU_ISSET_def)
qed

lemma reachable_getPhysicalCoreId:
  assumes "reachable getenv aff c m"
  shows "getPhysicalCoreId c m k =
           (if k < CPU_COUNT (currentCoreSet m)
            then Inr (sorted_list_of_set (currentCoreSet m) ! k) else Inl LogFatal)"
proof -
  let ?n = "unat (getNumberOfProcessors c)"
  from reachable_facts [OF assms] have n: "INT_MAX \<notin> set [0..<?n]" by (simp add: INT_MAX_upt)
  have sub: "currentCoreSet m \<subseteq> {p. p < ?n \<and> p < CPU_SETSIZE}"
    using reachable_coreSet_bounds(1) [OF assms] by (auto simp: CPU_ISSET_def)
  have len: "length (sorted_list_of_set (currentCoreSet m)) = CPU_COUNT (currentCoreSet m)"
    by (simp add: reachable_coreSet_bounds(3) [OF assms])
  show ?thesis
    unfolding getPhysicalCoreId_def getPhysicalCoreIdLoop_filter [OF n]
      filter_upt_sorted_list_of_set [OF sub] len ..
qed

lemma reachable_kth_member:
  assumes "reachable getenv aff c m" and "k < CPU_COUNT (currentCoreSet m)"
  shows "sorted_list_of_set (currentCoreSet m) ! k \<in> currentCoreSet m"
proof -
  have "k < length (sorted_list_of_set (currentCoreSet m))"
    using assms(2) by (simp add: reachable_coreSet_bounds(3) [OF assms(1)])
  then have "sorted_list_of_set (currentCoreSet m) ! k \<in> set (sorted_list_of_set (currentCoreSet m))"
    by (rule nth_mem)
  then show ?thesis by (simp add: reachable_coreSet_bounds(2) [OF assms(1)])
qed

lemma reachable_kth_union:
  assumes "reachable getenv aff c m"
  shows "(\<Union>k<CPU_COUNT (currentCoreSet m). {sorted_list_of_set (currentCoreSet m) ! k})
           = currentCoreSet m"
proof -
  let ?l = "sorted_list_of_set (currentCoreSet m)"
  have len: "CPU_COUNT (currentCoreSet m) = length ?l"
    by (simp add: reachable_coreSet_bounds(3) [OF assms])
  have "(\<Union>k<length ?l. {?l ! k}) = set ?l"
    by (auto simp: set_conv_nth)
  then show ?thesis
    unfolding len by (simp add: reachable_coreSet_bounds(2) [OF assms])
qed

lemma reachable_kth_distinct:
  assumes "reachable getenv aff c m"
    and "j < CPU_COUNT (currentCoreSet m)" and "k < CPU_COUNT (currentCoreSet m)" and "j \<noteq> k"
  shows "sorted_list_of_set (currentCoreSet m) ! j \<noteq> sorted_list_of_set (currentCoreSet m) ! k"
proof -
  let ?l = "sorted_list_of_set (currentCoreSet m)"
  have len: "CPU_COUNT (currentCoreSet m) = length ?l"
    by (simp add: reachable_coreSet_bounds(3) [OF assms(1)])
  have "distinct ?l" by simp
  with assms(2,3,4) show ?thesis unfolding len by (simp add: nth_eq_iff_index_eq)
qed

section \<open>Properties of the binding functions\<close>

lemma not_allowed_noop:
  assumes "\<not> isThreadsBindAllowed m"
  shows "bindOpenMpThreads c m self workers sys = Inr sys"
    and "bindCurrentThreadToNonPrimaryCoreIfPossible c m self' sys = Some (Inr sys)"
  using assms
  by (simp_all add: bindOpenMpThreads_def bindCurrentThreadToNonPrimaryCoreIfPossible_def)

lemma reachable_bind_one:
  assumes "reachable getenv aff c m" and "k < CPU_COUNT (currentCoreSet m)"
  shows "bindCurrentThreadToLogicalCoreCpu c m self k sys =
           Inr (sys\<lparr>affinity := (affinity sys)
                  (self := {sorted_list_of_set (currentCoreSet m) ! k})\<rparr>)"
proof -
  let ?p = "sorted_list_of_set (currentCoreSet m) ! k"
  from reachable_kth_member [OF assms] reachable_coreSet_bounds(1) [OF assms(1)]
  have "?p < CPU_SETSIZE" by (auto simp: CPU_ISSET_def)
  then have "CPU_SET ?p CPU_ZERO = {?p}" by (simp add: CPU_SET_def CPU_ZERO_def)
  then show ?thesis
    using assms(2)
    by (simp add: bindCurrentThreadToLogicalCoreCpu_def reachable_getPhysicalCoreId [OF assms(1)]
        sched_setaffinity_def)
qed

lemma parallelRegion_zip:
  assumes "reachable getenv aff c m"
    and "length team = length ks"
    and "distinct team"
    and "\<forall>k\<in>set ks. k < CPU_COUNT (currentCoreSet m)"
  shows "\<exists>sys'. parallelRegion c m (zip team ks) sys = Inr sys'
           \<and> ompNumThreads sys' = ompNumThreads sys
           \<and> (\<forall>i<length team. affinity sys' (team ! i) =
                  {sorted_list_of_set (currentCoreSet m) ! (ks ! i)})
           \<and> (\<forall>other. other \<notin> set team \<longrightarrow> affinity sys' other = affinity sys other)"
  using assms(2,3,4)
proof (induction team ks arbitrary: sys rule: list_induct2)
  case Nil
  then show ?case by simp
next
  case (Cons self team k ks)
  let ?sys1 = "sys\<lparr>affinity := (affinity sys)
                  (self := {sorted_list_of_set (currentCoreSet m) ! k})\<rparr>"
  have k: "k < CPU_COUNT (currentCoreSet m)" using Cons.prems(2) by simp
  have d: "distinct team" and fresh: "self \<notin> set team" using Cons.prems(1) by simp_all
  have ks: "\<forall>k\<in>set ks. k < CPU_COUNT (currentCoreSet m)" using Cons.prems(2) by simp
  from Cons.IH [OF d ks, of ?sys1] obtain sys' where
    run: "parallelRegion c m (zip team ks) ?sys1 = Inr sys'"
    and num: "ompNumThreads sys' = ompNumThreads ?sys1"
    and mine: "\<forall>i<length team. affinity sys' (team ! i) =
                  {sorted_list_of_set (currentCoreSet m) ! (ks ! i)}"
    and others: "\<forall>other. other \<notin> set team \<longrightarrow> affinity sys' other = affinity ?sys1 other"
    by blast
  have "parallelRegion c m (zip (self # team) (k # ks)) sys = Inr sys'"
    using run by (simp add: reachable_bind_one [OF assms(1) k])
  moreover have "ompNumThreads sys' = ompNumThreads sys" using num by simp
  moreover have "\<forall>i<length (self # team). affinity sys' ((self # team) ! i) =
                  {sorted_list_of_set (currentCoreSet m) ! ((k # ks) ! i)}"
  proof (intro allI impI)
    fix i assume "i < length (self # team)"
    then show "affinity sys' ((self # team) ! i) =
                  {sorted_list_of_set (currentCoreSet m) ! ((k # ks) ! i)}"
      using mine others fresh by (cases i) simp_all
  qed
  moreover have "\<forall>other. other \<notin> set (self # team) \<longrightarrow> affinity sys' other = affinity sys other"
    using others by simp
  ultimately show ?case by blast
qed

lemma ompTeam_after_limit:
  assumes "0 < CPU_COUNT (currentCoreSet m)"
  shows "ompTeam self workers (setOpenMpThreadNumberLimit m sys) =
           self # take (CPU_COUNT (currentCoreSet m) - 1) workers"
    and "length (ompTeam self workers (setOpenMpThreadNumberLimit m sys))
           \<le> CPU_COUNT (currentCoreSet m)"
    and "CPU_COUNT (currentCoreSet m) \<le> Suc (length workers) \<Longrightarrow>
           length (ompTeam self workers (setOpenMpThreadNumberLimit m sys))
             = CPU_COUNT (currentCoreSet m)"
  using assms
  by (auto simp: ompTeam_def setOpenMpThreadNumberLimit_def omp_set_num_threads_def)

lemma distinct_ompTeam:
  assumes "distinct (self # workers)"
  shows "distinct (ompTeam self workers sys)"
proof -
  have "self \<notin> set (take (ompNumThreads sys - 1) workers)"
    using assms by (auto dest: in_set_takeD)
  then show ?thesis using assms by (simp add: ompTeam_def)
qed

lemma reachable_bindOpenMpThreads:
  assumes "reachable getenv aff c m"
    and "isThreadsBindAllowed m"
    and "0 < CPU_COUNT (currentCoreSet m)"
    and "distinct (self # workers)"
    and "team = ompTeam self workers (setOpenMpThreadNumberLimit m sys)"
  shows "\<exists>sys'. bindOpenMpThreads c m self workers sys = Inr sys'
           \<and> ompNumThreads sys' = CPU_COUNT (currentCoreSet m)
           \<and> (\<forall>k<length team. affinity sys' (team ! k) =
                  {sorted_list_of_set (currentCoreSet m) ! k})
           \<and> (\<forall>other. other \<notin> set team \<longrightarrow> affinity sys' other = affinity sys other)"
proof -
  have len: "length team \<le> CPU_COUNT (currentCoreSet m)"
    unfolding assms(5) by (rule ompTeam_after_limit(2) [OF assms(3)])
  have d: "distinct team" unfolding assms(5) by (rule distinct_ompTeam [OF assms(4)])
  have ks: "\<forall>k\<in>set [0..<length team]. k < CPU_COUNT (currentCoreSet m)"
    using len by auto
  have l: "length team = length [0..<length team]" by simp
  from parallelRegion_zip [OF assms(1) l d ks, of "setOpenMpThreadNumberLimit m sys"]
  obtain sys' where
    run: "parallelRegion c m (zip team [0..<length team]) (setOpenMpThreadNumberLimit m sys)
            = Inr sys'"
    and num: "ompNumThreads sys' = ompNumThreads (setOpenMpThreadNumberLimit m sys)"
    and mine: "\<forall>i<length team. affinity sys' (team ! i) =
        {sorted_list_of_set (currentCoreSet m) ! ([0..<length team] ! i)}"
    and others: "\<forall>other. other \<notin> set team \<longrightarrow>
        affinity sys' other = affinity (setOpenMpThreadNumberLimit m sys) other"
    by blast
  have "bindOpenMpThreads c m self workers sys = Inr sys'"
    using run assms(2) by (simp add: bindOpenMpThreads_def Let_def assms(5))
  moreover have "ompNumThreads sys' = CPU_COUNT (currentCoreSet m)"
    using num assms(3) by (simp add: setOpenMpThreadNumberLimit_def omp_set_num_threads_def)
  moreover have "\<forall>k<length team. affinity sys' (team ! k) =
                  {sorted_list_of_set (currentCoreSet m) ! k}"
    using mine by simp
  moreover have "\<forall>other. other \<notin> set team \<longrightarrow> affinity sys' other = affinity sys other"
    using others by (simp add: setOpenMpThreadNumberLimit_def omp_set_num_threads_def)
  ultimately show ?thesis by blast
qed

section \<open>Properties of \<open>selectAllCoreCpus\<close>\<close>

lemma congruent_above:
  fixes p q t :: nat
  assumes "p < q" and "q mod t = p mod t"
  shows "p + t \<le> q"
proof -
  have "t dvd q - p" using assms by (metis mod_eq_dvd_iff_nat less_imp_le)
  moreover have "0 < q - p" using assms(1) by simp
  ultimately have "t \<le> q - p" by (rule dvd_imp_le)
  then show ?thesis using assms(1) by simp
qed

lemma selectAllCoreCpusLoop_nowrap:
  assumes "0 < t" and "n + t \<le> 2 ^ 32"
  shows "selectAllCoreCpusLoop n t cpuSet p s =
           Some (s \<union> {q. p \<le> q \<and> q < n \<and> CPU_ISSET q cpuSet \<and> q mod t = p mod t})"
proof (induction "n - p" arbitrary: p s rule: less_induct)
  case less
  show ?case
  proof (cases "p < n")
    case False
    then have "s \<union> {q. p \<le> q \<and> q < n \<and> CPU_ISSET q cpuSet \<and> q mod t = p mod t} = s"
      by auto
    moreover have "selectAllCoreCpusLoop n t cpuSet p s = Some s"
      using False by (subst selectAllCoreCpusLoop.simps) simp
    ultimately show ?thesis by (simp only:)
  next
    case True
    then have nowrap: "(p + t) mod 2 ^ 32 = p + t" using assms(2) by simp
    have dec: "n - (p + t) < n - p" using True assms(1) by simp
    let ?s = "if CPU_ISSET p cpuSet then CPU_SET p s else s"
    have s: "?s = s \<union> {q. q = p \<and> CPU_ISSET q cpuSet}"
      by (auto simp: CPU_SET_def CPU_ISSET_def)
    have split: "{q. p \<le> q \<and> q < n \<and> CPU_ISSET q cpuSet \<and> q mod t = p mod t}
        = {q. q = p \<and> CPU_ISSET q cpuSet}
          \<union> {q. p + t \<le> q \<and> q < n \<and> CPU_ISSET q cpuSet \<and> q mod t = (p + t) mod t}"
      using True by (auto dest: congruent_above simp: le_less)
    have "selectAllCoreCpusLoop n t cpuSet p s = selectAllCoreCpusLoop n t cpuSet (p + t) ?s"
      using True nowrap by (subst selectAllCoreCpusLoop.simps) simp
    also have "\<dots> = Some (?s \<union>
        {q. p + t \<le> q \<and> q < n \<and> CPU_ISSET q cpuSet \<and> q mod t = (p + t) mod t})"
      by (rule less.hyps [OF dec])
    finally show ?thesis unfolding s split by (simp add: Un_assoc)
  qed
qed

lemma selectAllCoreCpusLoop_wrap:
  assumes "n \<le> t" and "t < 2 ^ 32"
  shows "\<exists>r. selectAllCoreCpusLoop n t cpuSet p s = Some r
           \<and> s \<subseteq> r \<and> (p < n \<and> CPU_ISSET p cpuSet \<longrightarrow> p \<in> r)
           \<and> r \<subseteq> s \<union> {q. q < n \<and> CPU_ISSET q cpuSet}"
proof (induction p arbitrary: s rule: less_induct)
  case (less p)
  show ?case
  proof (cases "p < n")
    case False
    then show ?thesis by (subst selectAllCoreCpusLoop.simps) simp
  next
    case True
    let ?s = "if CPU_ISSET p cpuSet then CPU_SET p s else s"
    let ?p = "(p + t) mod 2 ^ 32"
    have s: "?s = s \<union> {q. q = p \<and> CPU_ISSET q cpuSet}"
      by (auto simp: CPU_SET_def CPU_ISSET_def)
    have step: "selectAllCoreCpusLoop n t cpuSet p s = selectAllCoreCpusLoop n t cpuSet ?p ?s"
      using True by (subst selectAllCoreCpusLoop.simps) simp
    have "\<exists>r. selectAllCoreCpusLoop n t cpuSet ?p ?s = Some r
           \<and> ?s \<subseteq> r \<and> r \<subseteq> ?s \<union> {q. q < n \<and> CPU_ISSET q cpuSet}"
    proof (cases "p + t < 2 ^ 32")
      case True
      then have "?p = p + t" by simp
      then have "\<not> ?p < n" using assms(1) by simp
      then show ?thesis by (subst selectAllCoreCpusLoop.simps) simp
    next
      case False
      then have ge: "(2 :: nat) ^ 32 \<le> p + t" by simp
      have "p + t - 2 ^ 32 < (2 :: nat) ^ 32" using assms True by simp
      with le_mod_geq [OF ge] have "?p = p + t - 2 ^ 32" by simp
      then have "?p < p" using assms(2) ge by simp
      from less.IH [OF this, of ?s] show ?thesis by blast
    qed
    then show ?thesis unfolding step using True s by auto
  qed
qed

lemma reachable_total_nonzero:
  assumes "reachable getenv aff c m" and "rep \<in> currentCoreSet m"
  shows "getTotalNumberOfCpuCores c \<noteq> 0"
proof
  assume "getTotalNumberOfCpuCores c = 0"
  with reachable_facts [OF assms(1)]
  have "{p. p < unat (getNumberOfProcessors c) \<and> CPU_ISSET p (currentCpuSet m)} = {}" by simp
  with reachable_coreSet_bounds(1) [OF assms(1)] assms(2) show False by auto
qed

lemma reachable_selectAllCoreCpus:
  assumes "reachable getenv aff c m" and "rep \<in> currentCoreSet m"
  shows "\<exists>r. selectAllCoreCpus c m CPU_ZERO rep = Some (Inr r)
           \<and> {q. q < unat (getNumberOfProcessors c) \<and> CPU_ISSET q (currentCpuSet m)
                  \<and> q mod unat (getTotalNumberOfCpuCores c)
                      = rep mod unat (getTotalNumberOfCpuCores c)} \<subseteq> r
           \<and> r \<subseteq> {q. q < unat (getNumberOfProcessors c) \<and> CPU_ISSET q (currentCpuSet m)}
           \<and> (unat (getNumberOfProcessors c) + unat (getTotalNumberOfCpuCores c) \<le> 2 ^ 32 \<longrightarrow>
                r = {q. q < unat (getNumberOfProcessors c) \<and> CPU_ISSET q (currentCpuSet m)
                        \<and> q mod unat (getTotalNumberOfCpuCores c)
                            = rep mod unat (getTotalNumberOfCpuCores c)})"
proof -
  let ?n = "unat (getNumberOfProcessors c)" and ?t = "unat (getTotalNumberOfCpuCores c)"
  let ?cur = "currentCpuSet m"
  let ?siblings = "{q. q < ?n \<and> CPU_ISSET q ?cur \<and> q mod ?t = rep mod ?t}"
  have nz: "getTotalNumberOfCpuCores c \<noteq> 0" by (rule reachable_total_nonzero [OF assms])
  then have t0: "0 < ?t" by (rule unat_total_pos)
  have t32: "?t < 2 ^ 32"
    using unsigned_less [of "getTotalNumberOfCpuCores c", where ?'a = nat] by simp
  from reachable_facts [OF assms(1)] have n: "?n \<le> INT_MAX" by simp
  from reachable_coreSet_bounds(1) [OF assms(1)] assms(2)
  have rep: "rep < ?n" "CPU_ISSET rep ?cur" by auto
  have sel: "selectAllCoreCpus c m CPU_ZERO rep =
      map_option Inr (selectAllCoreCpusLoop ?n ?t ?cur (rep mod ?t) {})"
    using nz by (simp add: selectAllCoreCpus_def CPU_ZERO_def)
  show ?thesis
  proof (cases "?n + ?t \<le> 2 ^ 32")
    case True
    from selectAllCoreCpusLoop_nowrap [OF t0 True, of ?cur "rep mod ?t" "{}"]
    have r: "selectAllCoreCpusLoop ?n ?t ?cur (rep mod ?t) {} =
        Some {q. rep mod ?t \<le> q \<and> q < ?n \<and> CPU_ISSET q ?cur \<and> q mod ?t = rep mod ?t}"
      by simp
    have "{q. rep mod ?t \<le> q \<and> q < ?n \<and> CPU_ISSET q ?cur \<and> q mod ?t = rep mod ?t}
        = ?siblings"
      by (auto intro: ord_eq_le_trans [OF sym mod_less_eq_dividend])
    with r have "selectAllCoreCpusLoop ?n ?t ?cur (rep mod ?t) {} = Some ?siblings"
      by (simp only:)
    then have "selectAllCoreCpus c m CPU_ZERO rep = Some (Inr ?siblings)"
      unfolding sel by simp
    moreover have "?siblings \<subseteq> {q. q < ?n \<and> CPU_ISSET q ?cur}" by blast
    ultimately show ?thesis by (intro exI [of _ ?siblings] conjI impI subset_refl refl)
  next
    case False
    then have le: "?n \<le> ?t" using n by (simp add: INT_MAX_def)
    then have same: "rep mod ?t = rep" using rep(1) by simp
    from selectAllCoreCpusLoop_wrap [OF le t32, of ?cur rep "{}"] rep obtain r where
      r: "selectAllCoreCpusLoop ?n ?t ?cur rep {} = Some r" "rep \<in> r"
        "r \<subseteq> {q. q < ?n \<and> CPU_ISSET q ?cur}"
      by auto
    have "?siblings \<subseteq> r" using le r(2) same by auto
    with r sel same False show ?thesis by simp
  qed
qed

lemma reachable_bind_full_core:
  assumes "reachable getenv aff c m" and "k < CPU_COUNT (currentCoreSet m)"
  shows "\<exists>r. bindCurrentThreadToLogicalCoreCpus c m self k sys =
                Some (Inr (sys\<lparr>affinity := (affinity sys)(self := r)\<rparr>))
           \<and> {q. q < unat (getNumberOfProcessors c) \<and> CPU_ISSET q (currentCpuSet m)
                  \<and> q mod unat (getTotalNumberOfCpuCores c)
                      = sorted_list_of_set (currentCoreSet m) ! k
                          mod unat (getTotalNumberOfCpuCores c)} \<subseteq> r
           \<and> r \<subseteq> {q. q < unat (getNumberOfProcessors c) \<and> CPU_ISSET q (currentCpuSet m)}
           \<and> (unat (getNumberOfProcessors c) + unat (getTotalNumberOfCpuCores c) \<le> 2 ^ 32 \<longrightarrow>
                r = {q. q < unat (getNumberOfProcessors c) \<and> CPU_ISSET q (currentCpuSet m)
                        \<and> q mod unat (getTotalNumberOfCpuCores c)
                            = sorted_list_of_set (currentCoreSet m) ! k
                                mod unat (getTotalNumberOfCpuCores c)})"
proof -
  let ?rep = "sorted_list_of_set (currentCoreSet m) ! k"
  from reachable_selectAllCoreCpus [OF assms(1) reachable_kth_member [OF assms]]
  obtain r where "selectAllCoreCpus c m CPU_ZERO ?rep = Some (Inr r)"
    and "{q. q < unat (getNumberOfProcessors c) \<and> CPU_ISSET q (currentCpuSet m)
            \<and> q mod unat (getTotalNumberOfCpuCores c)
                = ?rep mod unat (getTotalNumberOfCpuCores c)} \<subseteq> r"
    and "r \<subseteq> {q. q < unat (getNumberOfProcessors c) \<and> CPU_ISSET q (currentCpuSet m)}"
    and "unat (getNumberOfProcessors c) + unat (getTotalNumberOfCpuCores c) \<le> 2 ^ 32 \<longrightarrow>
                r = {q. q < unat (getNumberOfProcessors c) \<and> CPU_ISSET q (currentCpuSet m)
                        \<and> q mod unat (getTotalNumberOfCpuCores c)
                            = ?rep mod unat (getTotalNumberOfCpuCores c)}"
    by blast
  then show ?thesis
    using assms(2)
    by (intro exI [of _ r])
      (simp add: bindCurrentThreadToLogicalCoreCpus_def
        reachable_getPhysicalCoreId [OF assms(1)] sched_setaffinity_def)
qed

section \<open>Evaluation on the example inputs\<close>

lemma twoSockets_total: "totalNumberOfCpuCores twoSockets = 8"
  by code_simp

lemma twoSockets_n: "getNumberOfProcessors twoSockets = 16"
  by code_simp

lemma lowest_16_8: "lowestPerBucket 8 {p. p < 16 \<and> CPU_ISSET p {0..<16}} = {0..<8}"
proof (rule set_eqI)
  fix p :: nat
  have P: "{p. p < 16 \<and> CPU_ISSET p {0..<16}} = {0..<16}"
    by (auto simp: CPU_ISSET_def CPU_SETSIZE_def)
  show "p \<in> lowestPerBucket 8 {p. p < 16 \<and> CPU_ISSET p {0..<16}} \<longleftrightarrow> p \<in> {0..<8}"
  proof
    assume "p \<in> lowestPerBucket 8 {p. p < 16 \<and> CPU_ISSET p {0..<16}}"
    then have p16: "p < 16" and least: "\<forall>q<16. q mod 8 = p mod 8 \<longrightarrow> p \<le> q"
      unfolding P lowestPerBucket_def by auto
    have "p mod 8 < 16" by (rule less_trans [of _ 8]) simp_all
    with least have "p \<le> p mod 8" by simp
    moreover have "p mod 8 < 8" by simp
    ultimately show "p \<in> {0..<8}" by simp
  next
    assume "p \<in> {0..<8}"
    then have "p < 8" by simp
    then have "\<forall>q. q mod 8 = p mod 8 \<longrightarrow> p \<le> q"
      by (metis mod_less mod_less_eq_dividend)
    with \<open>p < 8\<close> show "p \<in> lowestPerBucket 8 {p. p < 16 \<and> CPU_ISSET p {0..<16}}"
      unfolding P lowestPerBucket_def by simp
  qed
qed

lemma CPU_COUNT_8: "CPU_COUNT {0..<8} = 8"
proof -
  have "CPU_COUNT {0..<8} = card {0..<8::nat}"
    by (rule CPU_COUNT_card) (auto simp: CPU_SETSIZE_def)
  then show ?thesis by simp
qed

lemma twoSockets_ctor_env:
  "OpenMpManager_ctor getenv (Some {0..<16}) twoSockets =
     Inr \<lparr>isGpuEnabled = False,
          isAnyOpenMpEnvVarSpecified = (\<exists>name\<in>set openMpEnvVars. getenv name \<noteq> None),
          currentCpuSet = {0..<16}, currentCoreSet = {0..<8}\<rparr>"
proof -
  have t: "getTotalNumberOfCpuCores twoSockets \<noteq> 0"
    by (simp add: getTotalNumberOfCpuCores_def twoSockets_total)
  have n: "unat (getNumberOfProcessors twoSockets) \<le> INT_MAX"
    by (simp add: twoSockets_n INT_MAX_def)
  show ?thesis
    by (simp add: OpenMpManager_ctor_def getCurrentCpuSet_def getOpenMpEnvVars_def
        getOpenMpEnvVarsLoop_eq zeroInitialized_def getCurrentCoreSet_eq [OF t n]
        getTotalNumberOfCpuCores_def twoSockets_total twoSockets_n lowest_16_8)
qed

lemma twoSockets_ctor:
  "OpenMpManager_ctor (\<lambda>name. None) (Some {0..<16}) twoSockets =
     Inr \<lparr>isGpuEnabled = False, isAnyOpenMpEnvVarSpecified = False,
          currentCpuSet = {0..<16}, currentCoreSet = {0..<8}\<rparr>"
proof -
  have t: "getTotalNumberOfCpuCores twoSockets \<noteq> 0"
    by (simp add: getTotalNumberOfCpuCores_def twoSockets_total)
  have n: "unat (getNumberOfProcessors twoSockets) \<le> INT_MAX"
    by (simp add: twoSockets_n INT_MAX_def)
  show ?thesis
    by (simp add: OpenMpManager_ctor_def getCurrentCpuSet_def getOpenMpEnvVars_def
        getOpenMpEnvVarsLoop_eq zeroInitialized_def getCurrentCoreSet_eq [OF t n]
        getTotalNumberOfCpuCores_def twoSockets_total twoSockets_n lowest_16_8)
qed

lemma oneSocketTwoCores_total: "totalNumberOfCpuCores oneSocketTwoCores = 2"
  by code_simp

lemma oneSocketTwoCores_n: "getNumberOfProcessors oneSocketTwoCores = 2"
  by code_simp

lemma lowest_2_12: "lowestPerBucket 2 {1, 2} = {1, 2}"
  by (auto simp: lowestPerBucket_def)

lemma coreSet_2_12:
  "getCurrentCoreSet oneSocketTwoCores (zeroInitialized\<lparr>currentCpuSet := {1, 2}\<rparr>) =
     Inr (zeroInitialized\<lparr>currentCpuSet := {1, 2}, currentCoreSet := {1}\<rparr>)"
  by (simp add: getCurrentCoreSet_def getTotalNumberOfCpuCores_def oneSocketTwoCores_total
      oneSocketTwoCores_n upt_rec CPU_ISSET_def CPU_SET_def CPU_ZERO_def CPU_SETSIZE_def
      INT_MAX_def)

lemma permitted_2_013: "{p. p < 2 \<and> CPU_ISSET p {0, 1, 3}} = {0, 1}"
  by (auto simp: CPU_ISSET_def CPU_SETSIZE_def)

lemma lowest_2_01: "lowestPerBucket 2 {0, 1} = {0, 1}"
  by (auto simp: lowestPerBucket_def)

lemma oneSocketTwoCores_ctor:
  "OpenMpManager_ctor (\<lambda>name. None) (Some {0, 1, 3}) oneSocketTwoCores =
     Inr \<lparr>isGpuEnabled = False, isAnyOpenMpEnvVarSpecified = False,
          currentCpuSet = {0, 1, 3}, currentCoreSet = {0, 1}\<rparr>"
proof -
  have t: "getTotalNumberOfCpuCores oneSocketTwoCores \<noteq> 0"
    by (simp add: getTotalNumberOfCpuCores_def oneSocketTwoCores_total)
  have n: "unat (getNumberOfProcessors oneSocketTwoCores) \<le> INT_MAX"
    by (simp add: oneSocketTwoCores_n INT_MAX_def)
  have u: "unat (getTotalNumberOfCpuCores oneSocketTwoCores) = 2"
    "unat (getNumberOfProcessors oneSocketTwoCores) = 2"
    by (simp_all add: getTotalNumberOfCpuCores_def oneSocketTwoCores_total oneSocketTwoCores_n)
  have core: "getCurrentCoreSet oneSocketTwoCores
       \<lparr>isGpuEnabled = False, isAnyOpenMpEnvVarSpecified = False,
        currentCpuSet = {0, 1, 3}, currentCoreSet = {}\<rparr> =
     Inr \<lparr>isGpuEnabled = False, isAnyOpenMpEnvVarSpecified = False,
          currentCpuSet = {0, 1, 3}, currentCoreSet = {0, 1}\<rparr>"
    unfolding getCurrentCoreSet_eq [OF t n] u
    by (simp only: OpenMpManager.simps permitted_2_013 lowest_2_01)
  have env: "getOpenMpEnvVars (\<lambda>name. None) zeroInitialized = zeroInitialized"
    by (simp add: getOpenMpEnvVars_def getOpenMpEnvVarsLoop_eq zeroInitialized_def)
  show ?thesis
    unfolding OpenMpManager_ctor_def env
    by (simp add: getCurrentCpuSet_def zeroInitialized_def core del: One_nat_def)
qed

lemma CPU_COUNT_01: "CPU_COUNT {0, 1} = 2"
proof -
  have "CPU_COUNT {0, 1} = card {0, 1 :: nat}"
    by (rule CPU_COUNT_card) (auto simp: CPU_SETSIZE_def)
  then show ?thesis by simp
qed

lemma sorted_list_01: "sorted_list_of_set {0, 1 :: nat} = [0, 1]"
proof -
  have "sorted_list_of_set {0..<2 :: nat} = [0..<2]" by (rule sorted_list_of_set_range)
  moreover have "{0..<2 :: nat} = {0, 1}" by auto
  moreover have "[0..<2 :: nat] = [0, 1]" by (simp add: upt_rec)
  ultimately show ?thesis by simp
qed

lemma oneSocketTwoCores_phys:
  "getPhysicalCoreId oneSocketTwoCores
       \<lparr>isGpuEnabled = False, isAnyOpenMpEnvVarSpecified = False,
        currentCpuSet = {0, 1, 3}, currentCoreSet = {0, 1}\<rparr> 1 = Inr 1"
proof -
  let ?m = "\<lparr>isGpuEnabled = False, isAnyOpenMpEnvVarSpecified = False,
          currentCpuSet = {0, 1, 3}, currentCoreSet = {0, 1 :: nat}\<rparr>"
  have r: "reachable (\<lambda>name. None) (Some {0, 1, 3}) oneSocketTwoCores ?m"
    by (intro reachable.constructed oneSocketTwoCores_ctor)
  have "getPhysicalCoreId oneSocketTwoCores ?m 1 =
      (if 1 < CPU_COUNT {0, 1} then Inr (sorted_list_of_set {0, 1 :: nat} ! 1) else Inl LogFatal)"
    unfolding reachable_getPhysicalCoreId [OF r] by (simp only: OpenMpManager.simps)
  then show ?thesis unfolding CPU_COUNT_01 sorted_list_01 by (simp del: One_nat_def)
qed

lemma oneSocketTwoCores_select:
  "selectAllCoreCpus oneSocketTwoCores
     \<lparr>isGpuEnabled = False, isAnyOpenMpEnvVarSpecified = False,
      currentCpuSet = {0, 1, 3}, currentCoreSet = {0, 1}\<rparr> CPU_ZERO 1 = Some (Inr {1})"
proof -
  have u: "unat (getTotalNumberOfCpuCores oneSocketTwoCores) = 2"
    "unat (getNumberOfProcessors oneSocketTwoCores) = 2"
    "getTotalNumberOfCpuCores oneSocketTwoCores \<noteq> 0"
    by (simp_all add: getTotalNumberOfCpuCores_def oneSocketTwoCores_total oneSocketTwoCores_n)
  have loop: "selectAllCoreCpusLoop 2 2 {0, 1, 3} (1 mod 2) {} =
      Some ({} \<union> {q. 1 mod 2 \<le> q \<and> q < 2 \<and> CPU_ISSET q {0, 1, 3} \<and> q mod 2 = 1 mod 2 mod 2})"
    by (rule selectAllCoreCpusLoop_nowrap) simp_all
  have "{} \<union> {q. 1 mod 2 \<le> q \<and> q < 2 \<and> CPU_ISSET q {0, 1, 3} \<and> q mod 2 = 1 mod 2 mod 2} = {1 :: nat}"
    by (auto simp: CPU_ISSET_def CPU_SETSIZE_def)
  with loop have "selectAllCoreCpusLoop 2 2 {0, 1, 3} (1 mod 2) {} = Some {1}" by (simp only:)
  then show ?thesis
    unfolding selectAllCoreCpus_def u CPU_ZERO_def
    by (simp add: u del: One_nat_def)
qed

lemma oneSocketTwoCores_bind:
  "bindCurrentThreadToNonPrimaryCoreIfPossible oneSocketTwoCores
       \<lparr>isGpuEnabled = False, isAnyOpenMpEnvVarSpecified = False,
        currentCpuSet = {0, 1, 3}, currentCoreSet = {0, 1}\<rparr>
       5 \<lparr>ompNumThreads = 2, affinity = \<lambda>self. {0, 1, 3}\<rparr> =
     Some (Inr \<lparr>ompNumThreads = 2, affinity = (\<lambda>self. {0, 1, 3})(5 := {1})\<rparr>)"
proof -
  let ?m = "\<lparr>isGpuEnabled = False, isAnyOpenMpEnvVarSpecified = False,
          currentCpuSet = {0, 1, 3}, currentCoreSet = {0, 1 :: nat}\<rparr>"
  let ?sys = "\<lparr>ompNumThreads = 2, affinity = \<lambda>self. {0, 1, 3 :: nat}\<rparr>"
  have a: "isThreadsBindAllowed ?m" by (simp add: isThreadsBindAllowed_def)
  have "bindCurrentThreadToNonPrimaryCoreIfPossible oneSocketTwoCores ?m 5 ?sys =
      bindCurrentThreadToLogicalCoreCpus oneSocketTwoCores ?m 5 1 ?sys"
    unfolding bindCurrentThreadToNonPrimaryCoreIfPossible_def
    using a by (simp add: CPU_COUNT_01 del: One_nat_def)
  also have "\<dots> = Some (Inr (sched_setaffinity 5 {1} ?sys))"
    by (simp add: bindCurrentThreadToLogicalCoreCpus_def oneSocketTwoCores_phys
        oneSocketTwoCores_select del: One_nat_def)
  finally show ?thesis by (simp add: sched_setaffinity_def del: One_nat_def)
qed

lemma extract_xeon:
  "extractProcessorSpeedFromModelName ''Intel(R) Xeon @ 2.40GHz'' (parsedCollection 0 []) =
     Inr (parsedCollection 2400 [])"
  by code_simp

lemma extract_2400MHz:
  "extractProcessorSpeedFromModelName ''Model @ 2400MHz'' (parsedCollection 0 []) =
     Inr (parsedCollection 2400 [])"
  by code_simp

lemma extract_0933:
  "extractProcessorSpeedFromModelName ''Model @ 0.933'' (parsedCollection 0 []) =
     Inr (parsedCollection 933 [])"
  by code_simp

lemma extract_150:
  "extractProcessorSpeedFromModelName ''Model @ 150'' (parsedCollection 0 []) =
     Inr (parsedCollection 150 [])"
  by code_simp

lemma extract_abc:
  "extractProcessorSpeedFromModelName ''Model @ abc'' (parsedCollection 0 []) =
     Inr (parsedCollection 0 [])"
  by code_simp

lemma extract_04MHz:
  "extractProcessorSpeedFromModelName ''Model @ 0.4MHz'' (parsedCollection 0 []) =
     Inr (parsedCollection 0 [])"
  by code_simp

lemma extract_240GHz:
  "extractProcessorSpeedFromModelName ''Model @ 2.40GHz'' (parsedCollection 0 []) =
     Inr (parsedCollection 2400 [])"
  by code_simp

lemma extract_below_half:
  "extractProcessorSpeedFromModelName ''Model @ 0.49999999999999994MHz''
     (parsedCollection 0 []) = Inr (parsedCollection 1 [])"
  by code_simp

lemma noRecords_ctor:
  "OpenMpManager_ctor (\<lambda>name. None) (Some {0}) (Collection_ctor 0 []) =
     Inr \<lparr>isGpuEnabled = False, isAnyOpenMpEnvVarSpecified = False,
          currentCpuSet = {0}, currentCoreSet = {}\<rparr>"
proof -
  have n0: "getNumberOfProcessors (Collection_ctor 0 []) = 0"
    by (simp add: getNumberOfProcessors_def Collection_ctor_def collectBasicCpuInformation_def
        parsedCollection_def)
  have env: "getOpenMpEnvVars (\<lambda>name. None) zeroInitialized = zeroInitialized"
    by (simp add: getOpenMpEnvVars_def getOpenMpEnvVarsLoop_eq zeroInitialized_def)
  have "getCurrentCoreSet (Collection_ctor 0 []) (zeroInitialized\<lparr>currentCpuSet := {0}\<rparr>) =
      Inr \<lparr>isGpuEnabled = False, isAnyOpenMpEnvVarSpecified = False,
          currentCpuSet = {0}, currentCoreSet = {}\<rparr>"
    by (simp add: getCurrentCoreSet_def n0 zeroInitialized_def CPU_ZERO_def)
  then show ?thesis
    by (simp add: OpenMpManager_ctor_def getCurrentCpuSet_def env)
qed

lemma noRecords_bindOpenMpThreads:
  "bindOpenMpThreads (Collection_ctor 0 [])
     \<lparr>isGpuEnabled = False, isAnyOpenMpEnvVarSpecified = False,
      currentCpuSet = {0}, currentCoreSet = {}\<rparr>
     self workers sys = Inl LogFatal"
proof -
  have n0: "getNumberOfProcessors (Collection_ctor 0 []) = 0"
    by (simp add: getNumberOfProcessors_def Collection_ctor_def collectBasicCpuInformation_def
        parsedCollection_def)
  have count: "CPU_COUNT {} = 0" by (simp add: CPU_COUNT_def)
  show ?thesis
    by (simp add: bindOpenMpThreads_def isThreadsBindAllowed_def setOpenMpThreadNumberLimit_def
        omp_set_num_threads_def ompTeam_def count bindCurrentThreadToLogicalCoreCpu_def
        getPhysicalCoreId_def n0)
qed

lemma sorted_list_8: "sorted_list_of_set {0..<8::nat} = [0..<8]"
  by (simp add: sorted_list_of_set_range del: upt_rec_numeral)
section \<open>The claims\<close>

text \<open>
  C1. After the constructor's aggregation pass the socket count is the number of
  distinct \<open>physicalId\<close> values of the records, and the total core count is the sum of
  \<open>cpuCores\<close> over the records at which a socket id is first seen, in source order.
  Both are values of type \<open>unsigned\<close>: the count is converted and the sum is taken
  in 32-bit arithmetic, as the code does. They are the count and the sum as natural
  numbers whenever those fit: for fewer than \<open>2 ^ 32\<close> records, and for a sum below
  \<open>2 ^ 32\<close>.
\<close>

theorem collectBasicCpuInformation_aggregates:
  "totalNumberOfSockets (Collection_ctor speed ps) = of_nat (card (physicalId ` set ps))
   \<and> totalNumberOfCpuCores (Collection_ctor speed ps) =
       sum_list (map cpuCores (firstOfSocket {} ps))
   \<and> (length ps < 2 ^ 32 \<longrightarrow>
        unat (totalNumberOfSockets (Collection_ctor speed ps)) = card (physicalId ` set ps))
   \<and> (sum_list (map unat (map cpuCores (firstOfSocket {} ps))) < 2 ^ 32 \<longrightarrow>
        unat (totalNumberOfCpuCores (Collection_ctor speed ps)) =
          sum_list (map unat (map cpuCores (firstOfSocket {} ps))))"
proof -
  from collectLoop_invariant [of "{}" "parsedCollection speed ps" ps]
  have sockets: "totalNumberOfSockets (Collection_ctor speed ps) =
      of_nat (card (physicalId ` set ps))"
    and cores: "totalNumberOfCpuCores (Collection_ctor speed ps) =
      sum_list (map cpuCores (firstOfSocket {} ps))"
    by (simp_all add: Collection_ctor_def collectBasicCpuInformation_def parsedCollection_def)
  show ?thesis
    unfolding sockets cores
    by (intro conjI impI refl unat_card_ids unat_sum_list)
qed

text \<open>
  Two sockets with ids 0 and 1, two logical processors each, interleaved in the source:
  2 sockets, and 4 + 6 cores (the value of the first record of each socket counts).
\<close>

theorem collectBasicCpuInformation_aggregates_witness:
  "totalNumberOfSockets (Collection_ctor 2400
     [\<lparr>processor = 0, physicalId = 0, siblings = 2, coreId = 0, cpuCores = 4\<rparr>,
      \<lparr>processor = 1, physicalId = 1, siblings = 2, coreId = 0, cpuCores = 6\<rparr>,
      \<lparr>processor = 2, physicalId = 0, siblings = 2, coreId = 1, cpuCores = 5\<rparr>,
      \<lparr>processor = 3, physicalId = 1, siblings = 2, coreId = 1, cpuCores = 7\<rparr>]) = 2
   \<and> totalNumberOfCpuCores (Collection_ctor 2400
     [\<lparr>processor = 0, physicalId = 0, siblings = 2, coreId = 0, cpuCores = 4\<rparr>,
      \<lparr>processor = 1, physicalId = 1, siblings = 2, coreId = 0, cpuCores = 6\<rparr>,
      \<lparr>processor = 2, physicalId = 0, siblings = 2, coreId = 1, cpuCores = 5\<rparr>,
      \<lparr>processor = 3, physicalId = 1, siblings = 2, coreId = 1, cpuCores = 7\<rparr>]) = 10"
  using collectBasicCpuInformation_aggregates [of 2400
     "[\<lparr>processor = 0, physicalId = 0, siblings = 2, coreId = 0, cpuCores = 4\<rparr>,
      \<lparr>processor = 1, physicalId = 1, siblings = 2, coreId = 0, cpuCores = 6\<rparr>,
      \<lparr>processor = 2, physicalId = 0, siblings = 2, coreId = 1, cpuCores = 5\<rparr>,
      \<lparr>processor = 3, physicalId = 1, siblings = 2, coreId = 1, cpuCores = 7\<rparr>]"]
  by (simp add: card_insert_if)

text \<open>
  C4, as amended. When the total number of cores is not 0 (and the loop counter cannot
  overflow), \<open>getCurrentCoreSet\<close> stores exactly those processors that are in the
  current set and below the number of records, and are the least such processor in
  their class modulo the total number of cores. A processor of the current set whose
  number is not below the number of records is never looked at.
\<close>

theorem getCurrentCoreSet_lowest_per_bucket:
  assumes "getTotalNumberOfCpuCores c \<noteq> 0"
    and "unat (getNumberOfProcessors c) \<le> INT_MAX"
  shows "getCurrentCoreSet c m =
           Inr (m\<lparr>currentCoreSet :=
                  lowestPerBucket (unat (getTotalNumberOfCpuCores c))
                    {p. p < unat (getNumberOfProcessors c) \<and> CPU_ISSET p (currentCpuSet m)}\<rparr>)"
  using assms by (rule getCurrentCoreSet_eq)

text \<open>
  Sixteen logical processors, eight cores, every processor permitted: the core set is
  \<open>{0..<8}\<close> and has eight members.
\<close>

theorem getCurrentCoreSet_lowest_per_bucket_witness:
  "getCurrentCoreSet twoSockets (zeroInitialized\<lparr>currentCpuSet := {0..<16}\<rparr>) =
     Inr (zeroInitialized\<lparr>currentCpuSet := {0..<16}, currentCoreSet := {0..<8}\<rparr>)
   \<and> CPU_COUNT {0..<8} = 8"
proof -
  have t: "getTotalNumberOfCpuCores twoSockets \<noteq> 0"
    by (simp add: getTotalNumberOfCpuCores_def twoSockets_total)
  have n: "unat (getNumberOfProcessors twoSockets) \<le> INT_MAX"
    by (simp add: twoSockets_n INT_MAX_def)
  have "CPU_COUNT {0..<8} = card {0..<8::nat}"
    by (rule CPU_COUNT_card) (auto simp: CPU_SETSIZE_def)
  then show ?thesis
    using getCurrentCoreSet_lowest_per_bucket
      [OF t n, of "zeroInitialized\<lparr>currentCpuSet := {0..<16}\<rparr>"]
    by (simp add: getTotalNumberOfCpuCores_def twoSockets_total twoSockets_n lowest_16_8)
qed

text \<open>
  C4 as stated fails when the current set holds a processor whose number is not below
  the number of records: with two records, two cores and the current set \<open>{1, 2}\<close>,
  processor 2 is the least permitted processor of its class modulo 2, and the core set
  is \<open>{1}\<close>.
\<close>

theorem getCurrentCoreSet_unrestricted_counterexample:
  "\<not> (\<exists>m'. getCurrentCoreSet oneSocketTwoCores (zeroInitialized\<lparr>currentCpuSet := {1, 2}\<rparr>)
              = Inr m'
          \<and> currentCoreSet m' =
              lowestPerBucket (unat (getTotalNumberOfCpuCores oneSocketTwoCores)) {1, 2})"
proof
  assume "\<exists>m'. getCurrentCoreSet oneSocketTwoCores (zeroInitialized\<lparr>currentCpuSet := {1, 2}\<rparr>)
              = Inr m'
          \<and> currentCoreSet m' =
              lowestPerBucket (unat (getTotalNumberOfCpuCores oneSocketTwoCores)) {1, 2}"
  then obtain m' where
    a: "getCurrentCoreSet oneSocketTwoCores (zeroInitialized\<lparr>currentCpuSet := {1, 2}\<rparr>) = Inr m'"
    and b: "currentCoreSet m' =
              lowestPerBucket (unat (getTotalNumberOfCpuCores oneSocketTwoCores)) {1, 2}"
    by blast
  from a have "currentCoreSet m' = {1}" unfolding coreSet_2_12 by auto
  moreover have u: "unat (getTotalNumberOfCpuCores oneSocketTwoCores) = 2"
    by (simp add: getTotalNumberOfCpuCores_def oneSocketTwoCores_total)
  from b have "currentCoreSet m' = {1, 2}"
    unfolding u lowest_2_12 .
  ultimately show False by auto
qed

text \<open>
  C9. Whenever the total number of cores is not 0 (and the loop counter cannot
  overflow) the constructor returns a manager. In every state the manager reaches,
  the core set is a subset of the current set and has at most as many members as there
  are cores, and both sets are those the constructor computed: \<open>setGpuEnabled\<close> and
  \<open>setGpuDisabled\<close> change the flag only, and the binding functions read the manager
  without assigning to it.
\<close>

theorem reachable_invariants:
  "(getTotalNumberOfCpuCores c \<noteq> 0 \<and> unat (getNumberOfProcessors c) \<le> INT_MAX \<longrightarrow>
      (\<exists>m0. OpenMpManager_ctor getenv aff c = Inr m0))
   \<and> (\<forall>m. reachable getenv aff c m \<longrightarrow>
        currentCoreSet m \<subseteq> currentCpuSet m
        \<and> CPU_COUNT (currentCoreSet m) \<le> unat (getTotalNumberOfCpuCores c)
        \<and> (\<exists>m0. OpenMpManager_ctor getenv aff c = Inr m0
              \<and> currentCpuSet m = currentCpuSet m0 \<and> currentCoreSet m = currentCoreSet m0))"
proof (intro conjI allI impI)
  assume "getTotalNumberOfCpuCores c \<noteq> 0 \<and> unat (getNumberOfProcessors c) \<le> INT_MAX"
  then show "\<exists>m0. OpenMpManager_ctor getenv aff c = Inr m0"
    using OpenMpManager_ctor_returns by blast
next
  fix m assume r: "reachable getenv aff c m"
  from reachable_coreSet_bounds(1) [OF r]
  show "currentCoreSet m \<subseteq> currentCpuSet m" by (auto simp: CPU_ISSET_def)
next
  fix m assume r: "reachable getenv aff c m"
  let ?P = "{p. p < unat (getNumberOfProcessors c) \<and> CPU_ISSET p (currentCpuSet m)}"
  from reachable_facts [OF r]
  have eq: "currentCoreSet m = lowestPerBucket (unat (getTotalNumberOfCpuCores c)) ?P"
    and zero: "getTotalNumberOfCpuCores c = 0 \<longrightarrow> ?P = {}" by simp_all
  have "card (currentCoreSet m) \<le> unat (getTotalNumberOfCpuCores c)"
  proof (cases "getTotalNumberOfCpuCores c = 0")
    case True
    with zero reachable_coreSet_bounds(1) [OF r] have "currentCoreSet m = {}" by auto
    then show ?thesis by simp
  next
    case False
    then have "0 < unat (getTotalNumberOfCpuCores c)" by (rule unat_total_pos)
    then show ?thesis unfolding eq by (intro lowestPerBucket_card) simp
  qed
  then show "CPU_COUNT (currentCoreSet m) \<le> unat (getTotalNumberOfCpuCores c)"
    by (simp add: reachable_coreSet_bounds(3) [OF r])
next
  fix m assume r: "reachable getenv aff c m"
  from reachable_facts [OF r]
  show "\<exists>m0. OpenMpManager_ctor getenv aff c = Inr m0
          \<and> currentCpuSet m = currentCpuSet m0 \<and> currentCoreSet m = currentCoreSet m0"
    by (elim conjE)
qed

text \<open>
  Sixteen logical processors, eight cores, every processor permitted, after
  \<open>setGpuEnabled\<close>.
\<close>

theorem reachable_invariants_witness:
  "reachable (\<lambda>name. None) (Some {0..<16}) twoSockets
     (setGpuEnabled \<lparr>isGpuEnabled = False, isAnyOpenMpEnvVarSpecified = False,
          currentCpuSet = {0..<16}, currentCoreSet = {0..<8}\<rparr>)
   \<and> {0..<8} \<subseteq> {0..<16::nat}
   \<and> CPU_COUNT {0..<8} \<le> unat (getTotalNumberOfCpuCores twoSockets)"
proof -
  let ?m = "\<lparr>isGpuEnabled = False, isAnyOpenMpEnvVarSpecified = False,
          currentCpuSet = {0..<16}, currentCoreSet = {0..<8}\<rparr>"
  have r: "reachable (\<lambda>name. None) (Some {0..<16}) twoSockets (setGpuEnabled ?m)"
    by (intro reachable.gpuEnabled reachable.constructed twoSockets_ctor)
  with reachable_invariants [of twoSockets "\<lambda>name. None" "Some {0..<16}"]
  have "currentCoreSet (setGpuEnabled ?m) \<subseteq> currentCpuSet (setGpuEnabled ?m)
      \<and> CPU_COUNT (currentCoreSet (setGpuEnabled ?m)) \<le> unat (getTotalNumberOfCpuCores twoSockets)"
    by blast
  with r show ?thesis by (simp add: setGpuEnabled_def)
qed

text \<open>
  C7. In every state the manager reaches, \<open>getPhysicalCoreId\<close> returns for an index
  below the number of core representatives the member of the core set at that position
  in ascending order, and for every other index it ends in \<open>LOG(FATAL)\<close>, which
  aborts the process: no value is returned to the caller.
\<close>

theorem getPhysicalCoreId_kth_or_fatal:
  assumes "reachable getenv aff c m"
  shows "(k < CPU_COUNT (currentCoreSet m) \<longrightarrow>
            getPhysicalCoreId c m k = Inr (sorted_list_of_set (currentCoreSet m) ! k))
       \<and> (CPU_COUNT (currentCoreSet m) \<le> k \<longrightarrow> getPhysicalCoreId c m k = Inl LogFatal)"
  by (simp add: reachable_getPhysicalCoreId [OF assms])

text \<open>
  With the core set \<open>{0..<8}\<close>: index 3 is processor 3, index 8 aborts.
\<close>

theorem getPhysicalCoreId_kth_or_fatal_witness:
  "getPhysicalCoreId twoSockets
     \<lparr>isGpuEnabled = False, isAnyOpenMpEnvVarSpecified = False,
      currentCpuSet = {0..<16}, currentCoreSet = {0..<8}\<rparr> 3 = Inr 3
   \<and> getPhysicalCoreId twoSockets
     \<lparr>isGpuEnabled = False, isAnyOpenMpEnvVarSpecified = False,
      currentCpuSet = {0..<16}, currentCoreSet = {0..<8}\<rparr> 8 = Inl LogFatal"
proof -
  let ?m = "\<lparr>isGpuEnabled = False, isAnyOpenMpEnvVarSpecified = False,
          currentCpuSet = {0..<16}, currentCoreSet = {0..<8}\<rparr>"
  have r: "reachable (\<lambda>name. None) (Some {0..<16}) twoSockets ?m"
    by (intro reachable.constructed twoSockets_ctor)
  from getPhysicalCoreId_kth_or_fatal [OF r, of 3] getPhysicalCoreId_kth_or_fatal [OF r, of 8]
  show ?thesis by (simp add: CPU_COUNT_8)
qed

text \<open>
  C6, as amended. In every state of the manager in which binding is allowed and the
  core set is not empty, \<open>bindOpenMpThreads\<close> returns. It has set the number of
  OpenMP threads to the number of core representatives, whatever the number was
  before: a larger number is cut down to it and a smaller one is raised to it. The team
  of the parallel region, the calling thread and the threads the runtime adds (they are
  different threads), has at least one thread and at most as many as there are core representatives, and exactly
  as many when the runtime has that many threads. The thread with number \<open>k\<close> of
  the team is bound to the one processor at position \<open>k\<close> of the core set, in
  ascending order; the masks of two threads of the team are disjoint; when the team has
  as many threads as there are core representatives, the union of the masks is the core
  set; and the mask of no other thread changes.
\<close>

theorem bindOpenMpThreads_one_per_core:
  assumes "reachable getenv aff c m"
    and "isThreadsBindAllowed m"
    and "0 < CPU_COUNT (currentCoreSet m)"
    and "distinct (self # workers)"
  shows "\<exists>sys' team. bindOpenMpThreads c m self workers sys = Inr sys'
           \<and> team = ompTeam self workers (setOpenMpThreadNumberLimit m sys)
           \<and> ompNumThreads sys' = CPU_COUNT (currentCoreSet m)
           \<and> 0 < length team \<and> length team \<le> CPU_COUNT (currentCoreSet m)
           \<and> (CPU_COUNT (currentCoreSet m) \<le> Suc (length workers) \<longrightarrow>
                  length team = CPU_COUNT (currentCoreSet m))
           \<and> (\<forall>k<length team. affinity sys' (team ! k) =
                  {sorted_list_of_set (currentCoreSet m) ! k}
                \<and> affinity sys' (team ! k) \<subseteq> currentCoreSet m)
           \<and> (\<forall>j<length team. \<forall>k<length team. j \<noteq> k \<longrightarrow>
                  affinity sys' (team ! j) \<inter> affinity sys' (team ! k) = {})
           \<and> (length team = CPU_COUNT (currentCoreSet m) \<longrightarrow>
                  (\<Union>k<length team. affinity sys' (team ! k)) = currentCoreSet m)
           \<and> (\<forall>other. other \<notin> set team \<longrightarrow> affinity sys' other = affinity sys other)"
proof -
  define team where "team = ompTeam self workers (setOpenMpThreadNumberLimit m sys)"
  from reachable_bindOpenMpThreads [OF assms team_def] obtain sys' where
    run: "bindOpenMpThreads c m self workers sys = Inr sys'"
    and num: "ompNumThreads sys' = CPU_COUNT (currentCoreSet m)"
    and mine: "\<forall>k<length team. affinity sys' (team ! k) =
                  {sorted_list_of_set (currentCoreSet m) ! k}"
    and others: "\<forall>other. other \<notin> set team \<longrightarrow> affinity sys' other = affinity sys other"
    by blast
  have pos: "0 < length team" by (simp add: team_def ompTeam_def)
  have len: "length team \<le> CPU_COUNT (currentCoreSet m)"
    unfolding team_def by (rule ompTeam_after_limit(2) [OF assms(3)])
  have full: "CPU_COUNT (currentCoreSet m) \<le> Suc (length workers) \<longrightarrow>
                  length team = CPU_COUNT (currentCoreSet m)"
    unfolding team_def using ompTeam_after_limit(3) [OF assms(3)] by blast
  have single: "\<forall>k<length team. affinity sys' (team ! k) =
                  {sorted_list_of_set (currentCoreSet m) ! k}
                \<and> affinity sys' (team ! k) \<subseteq> currentCoreSet m"
  proof (intro allI impI)
    fix k assume k: "k < length team"
    then have "k < CPU_COUNT (currentCoreSet m)" using len by simp
    from reachable_kth_member [OF assms(1) this] mine k
    show "affinity sys' (team ! k) = {sorted_list_of_set (currentCoreSet m) ! k}
        \<and> affinity sys' (team ! k) \<subseteq> currentCoreSet m"
      by simp
  qed
  have disj: "\<forall>j<length team. \<forall>k<length team. j \<noteq> k \<longrightarrow>
                  affinity sys' (team ! j) \<inter> affinity sys' (team ! k) = {}"
  proof (intro allI impI)
    fix j k assume jk: "j < length team" "k < length team" "j \<noteq> k"
    then have "j < CPU_COUNT (currentCoreSet m)" "k < CPU_COUNT (currentCoreSet m)"
      using len by simp_all
    from reachable_kth_distinct [OF assms(1) this jk(3)] mine jk(1,2)
    show "affinity sys' (team ! j) \<inter> affinity sys' (team ! k) = {}" by simp
  qed
  have un: "length team = CPU_COUNT (currentCoreSet m) \<longrightarrow>
                  (\<Union>k<length team. affinity sys' (team ! k)) = currentCoreSet m"
  proof
    assume eq: "length team = CPU_COUNT (currentCoreSet m)"
    have "(\<Union>k<length team. affinity sys' (team ! k))
        = (\<Union>k<length team. {sorted_list_of_set (currentCoreSet m) ! k})"
      using mine by simp
    then show "(\<Union>k<length team. affinity sys' (team ! k)) = currentCoreSet m"
      unfolding eq reachable_kth_union [OF assms(1)] .
  qed
  show ?thesis
    by (intro exI [of _ sys'] exI [of _ team] conjI)
      (rule run team_def num pos len full single disj un others)+
qed

text \<open>
  Sixteen logical processors, eight cores, the calling thread 0 and fifteen threads the
  runtime can add, sixteen OpenMP threads before the call: the number becomes 8, the
  team is the threads 0 to 7, thread \<open>k\<close> is bound to processor \<open>k\<close>, and the
  thread 8 keeps its mask.
\<close>

theorem bindOpenMpThreads_one_per_core_witness:
  "\<exists>sys'. bindOpenMpThreads twoSockets
       \<lparr>isGpuEnabled = False, isAnyOpenMpEnvVarSpecified = False,
        currentCpuSet = {0..<16}, currentCoreSet = {0..<8}\<rparr>
       0 [1..<16] \<lparr>ompNumThreads = 16, affinity = \<lambda>self. {0..<16}\<rparr> = Inr sys'
     \<and> ompNumThreads sys' = 8
     \<and> affinity sys' 0 = {0}
     \<and> affinity sys' 3 = {3}
     \<and> affinity sys' 7 = {7}
     \<and> affinity sys' 8 = {0..<16}
     \<and> affinity sys' 3 \<inter> affinity sys' 4 = {}
     \<and> (\<Union>k<8. affinity sys' k) = {0..<8}"
proof -
  let ?m = "\<lparr>isGpuEnabled = False, isAnyOpenMpEnvVarSpecified = False,
          currentCpuSet = {0..<16}, currentCoreSet = {0..<8}\<rparr>"
  let ?sys = "\<lparr>ompNumThreads = 16, affinity = \<lambda>self. {0..<16::nat}\<rparr>"
  have r: "reachable (\<lambda>name. None) (Some {0..<16}) twoSockets ?m"
    by (intro reachable.constructed twoSockets_ctor)
  have a: "isThreadsBindAllowed ?m" by (simp add: isThreadsBindAllowed_def)
  have p: "0 < CPU_COUNT (currentCoreSet ?m)" by (simp add: CPU_COUNT_8)
  have d: "distinct (0 # [1..<16::nat])" by simp
  have team: "ompTeam 0 [1..<16] (setOpenMpThreadNumberLimit ?m ?sys) = [0..<8]"
    by (simp add: ompTeam_def setOpenMpThreadNumberLimit_def omp_set_num_threads_def
        CPU_COUNT_8 upt_rec)
  from bindOpenMpThreads_one_per_core [OF r a p d, of ?sys] obtain sys' where
    run: "bindOpenMpThreads twoSockets ?m 0 [1..<16] ?sys = Inr sys'"
    and num: "ompNumThreads sys' = CPU_COUNT {0..<8}"
    and mine: "\<forall>k<8. affinity sys' ([0..<8] ! k) = {sorted_list_of_set {0..<8::nat} ! k}"
    and disj: "\<forall>j<8. \<forall>k<8. j \<noteq> k \<longrightarrow>
                  affinity sys' ([0..<8] ! j) \<inter> affinity sys' ([0..<8] ! k) = {}"
    and un: "(\<Union>k<8. affinity sys' ([0..<8] ! k)) = {0..<8}"
    and others: "\<forall>other. other \<notin> set [0..<8] \<longrightarrow> affinity sys' other = affinity ?sys other"
    unfolding team by (auto simp: CPU_COUNT_8)
  have nth: "[0..<8] ! k = k" if "k < 8" for k :: nat using that by simp
  have kth: "affinity sys' k = {k}" if "k < 8" for k
    using mine [rule_format, OF that] that by (simp add: sorted_list_8 del: upt_rec_numeral)
  have "affinity sys' 8 = {0..<16}" using others [rule_format, of 8] by simp
  moreover have "affinity sys' 3 \<inter> affinity sys' 4 = {}"
    using disj [rule_format, of 3 4] by simp
  moreover have "(\<Union>k<8. affinity sys' k) = (\<Union>k<8. affinity sys' ([0..<8] ! k))"
    by (intro SUP_cong refl) (simp add: nth)
  ultimately show ?thesis using run num un kth [of 0] kth [of 3] kth [of 7]
    by (simp add: CPU_COUNT_8)
qed

text \<open>
  C6 as stated fails in two ways. The number of threads is set, not cut down: with
  eight core representatives and two OpenMP threads before the call the number becomes
  8, where the lesser of 2 and 8 is 2, and the region binds eight threads. And with an
  empty core set, which a topology source that cannot be read gives while binding stays
  allowed, the number of threads becomes 1, one thread for no core, and that thread
  ends in \<open>LOG(FATAL)\<close>.
\<close>

theorem bindOpenMpThreads_clamp_counterexample:
  "(\<exists>sys'. bindOpenMpThreads twoSockets
        \<lparr>isGpuEnabled = False, isAnyOpenMpEnvVarSpecified = False,
         currentCpuSet = {0..<16}, currentCoreSet = {0..<8}\<rparr>
        0 [1..<16] \<lparr>ompNumThreads = 2, affinity = \<lambda>self. {0..<16}\<rparr> = Inr sys'
      \<and> ompNumThreads sys' = 8
      \<and> ompNumThreads sys' \<noteq> min 2 (CPU_COUNT {0..<8})
      \<and> affinity sys' 7 = {7})
   \<and> OpenMpManager_ctor (\<lambda>name. None) (Some {0}) (Collection_ctor 0 [])
       = Inr \<lparr>isGpuEnabled = False, isAnyOpenMpEnvVarSpecified = False,
              currentCpuSet = {0}, currentCoreSet = {}\<rparr>
   \<and> isThreadsBindAllowed
       \<lparr>isGpuEnabled = False, isAnyOpenMpEnvVarSpecified = False,
        currentCpuSet = {0}, currentCoreSet = {}\<rparr>
   \<and> ompNumThreads (setOpenMpThreadNumberLimit
       \<lparr>isGpuEnabled = False, isAnyOpenMpEnvVarSpecified = False,
        currentCpuSet = {0}, currentCoreSet = {}\<rparr>
       \<lparr>ompNumThreads = 4, affinity = \<lambda>self. {0}\<rparr>) = 1
   \<and> CPU_COUNT {} = 0
   \<and> bindOpenMpThreads (Collection_ctor 0 [])
       \<lparr>isGpuEnabled = False, isAnyOpenMpEnvVarSpecified = False,
        currentCpuSet = {0}, currentCoreSet = {}\<rparr>
       0 [1..<4] \<lparr>ompNumThreads = 4, affinity = \<lambda>self. {0}\<rparr> = Inl LogFatal"
proof -
  let ?m = "\<lparr>isGpuEnabled = False, isAnyOpenMpEnvVarSpecified = False,
          currentCpuSet = {0..<16}, currentCoreSet = {0..<8}\<rparr>"
  let ?sys = "\<lparr>ompNumThreads = 2, affinity = \<lambda>self. {0..<16::nat}\<rparr>"
  let ?e = "\<lparr>isGpuEnabled = False, isAnyOpenMpEnvVarSpecified = False,
        currentCpuSet = {0 :: nat}, currentCoreSet = {} :: nat set\<rparr>"
  have r: "reachable (\<lambda>name. None) (Some {0..<16}) twoSockets ?m"
    by (intro reachable.constructed twoSockets_ctor)
  have a: "isThreadsBindAllowed ?m" by (simp add: isThreadsBindAllowed_def)
  have p: "0 < CPU_COUNT (currentCoreSet ?m)" by (simp add: CPU_COUNT_8)
  have d: "distinct (0 # [1..<16::nat])" by simp
  have team: "[0..<8] = ompTeam 0 [1..<16] (setOpenMpThreadNumberLimit ?m ?sys)"
    by (simp add: ompTeam_def setOpenMpThreadNumberLimit_def omp_set_num_threads_def
        CPU_COUNT_8 upt_rec)
  from reachable_bindOpenMpThreads [OF r a p d team] obtain sys' where
    run: "bindOpenMpThreads twoSockets ?m 0 [1..<16] ?sys = Inr sys'"
    and num: "ompNumThreads sys' = CPU_COUNT {0..<8}"
    and mine: "\<forall>k<8. affinity sys' ([0..<8] ! k) = {sorted_list_of_set {0..<8::nat} ! k}"
    by auto
  have seven: "affinity sys' 7 = {7}"
    using mine [rule_format, of 7] by (simp add: sorted_list_8 del: upt_rec_numeral)
  have first: "\<exists>sys'. bindOpenMpThreads twoSockets ?m 0 [1..<16] ?sys = Inr sys'
      \<and> ompNumThreads sys' = 8
      \<and> ompNumThreads sys' \<noteq> min 2 (CPU_COUNT {0..<8})
      \<and> affinity sys' 7 = {7}"
    using run num seven by (intro exI [of _ sys']) (simp add: CPU_COUNT_8)
  have allowed: "isThreadsBindAllowed ?e" by (simp add: isThreadsBindAllowed_def)
  have count: "CPU_COUNT {} = 0" by (simp add: CPU_COUNT_def)
  have one: "ompNumThreads (setOpenMpThreadNumberLimit ?e
       \<lparr>ompNumThreads = 4, affinity = \<lambda>self. {0}\<rparr>) = 1"
    by (simp add: setOpenMpThreadNumberLimit_def omp_set_num_threads_def count)
  show ?thesis
    by (intro conjI) (rule first noRecords_ctor allowed one count noRecords_bindOpenMpThreads)+
qed

text \<open>
  C8, as amended. In every state of the manager in which binding is allowed and the
  core set is not empty, \<open>bindCurrentThreadToNonPrimaryCoreIfPossible\<close> returns
  and has set the mask of the calling thread. It is the call of
  \<open>bindCurrentThreadToLogicalCoreCpus\<close> with index 1 when there is more than one
  core representative and with index 0 otherwise. The mask holds every processor of the
  current set below the number of records that is congruent to the chosen
  representative modulo the total number of cores, and only processors of the current
  set; and it holds nothing else when the number of records and the total number of
  cores together do not exceed \<open>2 ^ 32\<close>, so that the counter of the loop does not
  wrap around.
\<close>

theorem bindCurrentThreadToNonPrimaryCoreIfPossible_full_core:
  assumes "reachable getenv aff c m"
    and "isThreadsBindAllowed m"
    and "0 < CPU_COUNT (currentCoreSet m)"
  shows "\<exists>r. bindCurrentThreadToNonPrimaryCoreIfPossible c m self sys =
                Some (Inr (sys\<lparr>affinity := (affinity sys)(self := r)\<rparr>))
           \<and> bindCurrentThreadToNonPrimaryCoreIfPossible c m self sys =
                bindCurrentThreadToLogicalCoreCpus c m self
                  (if 1 < CPU_COUNT (currentCoreSet m) then 1 else 0) sys
           \<and> (\<forall>q. q < unat (getNumberOfProcessors c) \<and> CPU_ISSET q (currentCpuSet m)
                  \<and> q mod unat (getTotalNumberOfCpuCores c)
                      = sorted_list_of_set (currentCoreSet m)
                          ! (if 1 < CPU_COUNT (currentCoreSet m) then 1 else 0)
                          mod unat (getTotalNumberOfCpuCores c)
                  \<longrightarrow> q \<in> r)
           \<and> r \<subseteq> currentCpuSet m
           \<and> (unat (getNumberOfProcessors c) + unat (getTotalNumberOfCpuCores c) \<le> 2 ^ 32 \<longrightarrow>
                (\<forall>q\<in>r. q < unat (getNumberOfProcessors c)
                  \<and> q mod unat (getTotalNumberOfCpuCores c)
                      = sorted_list_of_set (currentCoreSet m)
                          ! (if 1 < CPU_COUNT (currentCoreSet m) then 1 else 0)
                          mod unat (getTotalNumberOfCpuCores c)))"
proof -
  let ?k = "if 1 < CPU_COUNT (currentCoreSet m) then 1 else 0 :: nat"
  let ?n = "unat (getNumberOfProcessors c)" and ?t = "unat (getTotalNumberOfCpuCores c)"
  let ?siblings = "{q. q < ?n \<and> CPU_ISSET q (currentCpuSet m)
                  \<and> q mod ?t = sorted_list_of_set (currentCoreSet m) ! ?k mod ?t}"
  have k: "?k < CPU_COUNT (currentCoreSet m)" using assms(3) by simp
  have eq: "bindCurrentThreadToNonPrimaryCoreIfPossible c m self sys =
      bindCurrentThreadToLogicalCoreCpus c m self ?k sys"
    using assms(2) by (simp add: bindCurrentThreadToNonPrimaryCoreIfPossible_def)
  from reachable_bind_full_core [OF assms(1) k, of self sys] obtain r where
    r: "bindCurrentThreadToLogicalCoreCpus c m self ?k sys =
                Some (Inr (sys\<lparr>affinity := (affinity sys)(self := r)\<rparr>))"
      "?siblings \<subseteq> r"
      "r \<subseteq> {q. q < ?n \<and> CPU_ISSET q (currentCpuSet m)}"
      "?n + ?t \<le> 2 ^ 32 \<longrightarrow> r = ?siblings"
    by blast
  have sub: "r \<subseteq> currentCpuSet m" using r(3) by (auto simp: CPU_ISSET_def)
  have exact: "?n + ?t \<le> 2 ^ 32 \<longrightarrow>
      (\<forall>q\<in>r. q < ?n \<and> q mod ?t = sorted_list_of_set (currentCoreSet m) ! ?k mod ?t)"
    using r(4) by auto
  have all: "\<forall>q. q < ?n \<and> CPU_ISSET q (currentCpuSet m)
      \<and> q mod ?t = sorted_list_of_set (currentCoreSet m) ! ?k mod ?t \<longrightarrow> q \<in> r"
    using r(2) by auto
  have run: "bindCurrentThreadToNonPrimaryCoreIfPossible c m self sys =
      Some (Inr (sys\<lparr>affinity := (affinity sys)(self := r)\<rparr>))"
    using eq r(1) by (simp only:)
  show ?thesis by (intro exI [of _ r] conjI) (rule run eq all sub exact)+
qed

text \<open>
  Sixteen logical processors, eight cores: the calling thread 5 is bound to the core of
  representative 1, whose mask is \<open>{1, 9}\<close>.
\<close>

theorem bindCurrentThreadToNonPrimaryCoreIfPossible_full_core_witness:
  "bindCurrentThreadToNonPrimaryCoreIfPossible twoSockets
         \<lparr>isGpuEnabled = False, isAnyOpenMpEnvVarSpecified = False,
          currentCpuSet = {0..<16}, currentCoreSet = {0..<8}\<rparr>
         5 \<lparr>ompNumThreads = 16, affinity = \<lambda>self. {0..<16}\<rparr> =
       Some (Inr \<lparr>ompNumThreads = 16, affinity = (\<lambda>self. {0..<16})(5 := {1, 9})\<rparr>)"
proof -
  let ?m = "\<lparr>isGpuEnabled = False, isAnyOpenMpEnvVarSpecified = False,
          currentCpuSet = {0..<16}, currentCoreSet = {0..<8}\<rparr>"
  let ?sys = "\<lparr>ompNumThreads = 16, affinity = \<lambda>self. {0..<16::nat}\<rparr>"
  have r: "reachable (\<lambda>name. None) (Some {0..<16}) twoSockets ?m"
    by (intro reachable.constructed twoSockets_ctor)
  have a: "isThreadsBindAllowed ?m" by (simp add: isThreadsBindAllowed_def)
  have n: "0 < CPU_COUNT (currentCoreSet ?m)" by (simp add: CPU_COUNT_8)
  have u: "unat (getTotalNumberOfCpuCores twoSockets) = 8"
    "unat (getNumberOfProcessors twoSockets) = 16"
    by (simp_all add: getTotalNumberOfCpuCores_def twoSockets_total twoSockets_n)
  have rep: "sorted_list_of_set {0..<8 :: nat} ! (if 1 < CPU_COUNT {0..<8} then 1 else 0) = 1"
    by (simp add: CPU_COUNT_8)
  from bindCurrentThreadToNonPrimaryCoreIfPossible_full_core [OF r a n, of 5 ?sys]
  obtain r where
    run: "bindCurrentThreadToNonPrimaryCoreIfPossible twoSockets ?m 5 ?sys =
            Some (Inr (?sys\<lparr>affinity := (affinity ?sys)(5 := r)\<rparr>))"
    and sib: "\<forall>q. q < 16 \<and> CPU_ISSET q {0..<16} \<and> q mod 8 = 1 mod 8 \<longrightarrow> q \<in> r"
    and only: "(16 :: nat) + 8 \<le> 2 ^ 32 \<longrightarrow> (\<forall>q\<in>r. q < 16 \<and> q mod 8 = 1 mod 8)"
    unfolding u OpenMpManager.simps rep by blast
  have "1 \<in> r" using sib [rule_format, of 1] by (simp add: CPU_ISSET_def CPU_SETSIZE_def)
  moreover have "9 \<in> r" using sib [rule_format, of 9] by (simp add: CPU_ISSET_def CPU_SETSIZE_def)
  moreover have "q = 1 \<or> q = 9" if "q \<in> r" for q
  proof -
    from only that have "q < 16" and "q mod 8 = 1" by auto
    then show ?thesis by presburger
  qed
  ultimately have "r = {1, 9}" by auto
  with run show ?thesis by simp
qed

text \<open>
  C8 as stated fails when the current set holds a processor whose number is not below
  the number of records: with two records, two cores and the current set
  \<open>{0, 1, 3}\<close> the representative at index 1 is processor 1 and the mask is
  \<open>{1}\<close>, although processor 3 is permitted and congruent to 1 modulo 2.
\<close>

theorem bindCurrentThreadToNonPrimaryCoreIfPossible_sibling_counterexample:
  "OpenMpManager_ctor (\<lambda>name. None) (Some {0, 1, 3}) oneSocketTwoCores =
     Inr \<lparr>isGpuEnabled = False, isAnyOpenMpEnvVarSpecified = False,
          currentCpuSet = {0, 1, 3}, currentCoreSet = {0, 1}\<rparr>
   \<and> isThreadsBindAllowed
       \<lparr>isGpuEnabled = False, isAnyOpenMpEnvVarSpecified = False,
        currentCpuSet = {0, 1, 3}, currentCoreSet = {0, 1}\<rparr>
   \<and> getPhysicalCoreId oneSocketTwoCores
       \<lparr>isGpuEnabled = False, isAnyOpenMpEnvVarSpecified = False,
        currentCpuSet = {0, 1, 3}, currentCoreSet = {0, 1}\<rparr> 1 = Inr 1
   \<and> bindCurrentThreadToNonPrimaryCoreIfPossible oneSocketTwoCores
       \<lparr>isGpuEnabled = False, isAnyOpenMpEnvVarSpecified = False,
        currentCpuSet = {0, 1, 3}, currentCoreSet = {0, 1}\<rparr>
       5 \<lparr>ompNumThreads = 2, affinity = \<lambda>self. {0, 1, 3}\<rparr> =
     Some (Inr \<lparr>ompNumThreads = 2, affinity = (\<lambda>self. {0, 1, 3})(5 := {1})\<rparr>)
   \<and> CPU_ISSET 3 {0, 1, 3}
   \<and> 3 mod unat (getTotalNumberOfCpuCores oneSocketTwoCores)
       = 1 mod unat (getTotalNumberOfCpuCores oneSocketTwoCores)
   \<and> 3 \<notin> {1 :: nat}"
proof -
  have "isThreadsBindAllowed
       \<lparr>isGpuEnabled = False, isAnyOpenMpEnvVarSpecified = False,
        currentCpuSet = {0, 1, 3}, currentCoreSet = {0, 1}\<rparr>"
    by (simp add: isThreadsBindAllowed_def)
  moreover have "CPU_ISSET 3 {0, 1, 3}" by (simp add: CPU_ISSET_def CPU_SETSIZE_def)
  moreover have "3 mod unat (getTotalNumberOfCpuCores oneSocketTwoCores)
       = 1 mod unat (getTotalNumberOfCpuCores oneSocketTwoCores)"
    by (simp add: getTotalNumberOfCpuCores_def oneSocketTwoCores_total)
  moreover have "3 \<notin> {1 :: nat}" by simp
  ultimately show ?thesis
    using oneSocketTwoCores_ctor oneSocketTwoCores_phys oneSocketTwoCores_bind
    by (intro conjI)
qed

text \<open>
  C2, as amended. \<open>extractProcessorSpeedFromModelName\<close> leaves the collection as
  it is when the value has no \<open>@\<close>, and when a speed other than 0 is stored. With
  the stored speed 0 and the value split at its first \<open>@\<close>, it reads a number
  from the rest with \<open>strtod\<close>, skips white space and compares the next three
  characters with the units: the number counts as GHz when the unit is \<open>GHz\<close>, or
  when it is not \<open>MHz\<close> and the number is below 100. It stores
  \<open>1000 * speed + 0.5\<close> for GHz and \<open>speed + 0.5\<close> for MHz, computed in
  \<open>double\<close> and truncated, which for a result from 0 up to \<open>2 ^ 32\<close> is its
  integer part. The four model names of the specification give 2400, 2400, 933 and 150
  from a stored 0, and a name without \<open>@\<close> leaves the 0.
\<close>

theorem extractProcessorSpeedFromModelName_rule:
  "(strstr str ''@'' = None \<longrightarrow> extractProcessorSpeedFromModelName str c = Inr c)
   \<and> (processorSpeedMHz c \<noteq> 0 \<longrightarrow> extractProcessorSpeedFromModelName str c = Inr c)
   \<and> (\<forall>pre rest v u.
          str = pre @ CHR ''@'' # rest \<and> CHR ''@'' \<notin> set pre \<and> processorSpeedMHz c = 0
          \<and> strtod rest = (v, u) \<longrightarrow>
          extractProcessorSpeedFromModelName str c =
            storeSpeed c
              (if take 3 (dropWhile isspace u) = ''GHz''
                  \<or> (take 3 (dropWhile isspace u) \<noteq> ''MHz'' \<and> dless v (Finite 100))
               then dadd (dmul (Finite 1000) v) (Finite (1 / 2))
               else dadd v (Finite (1 / 2))))
   \<and> (\<forall>x. 0 \<le> x \<and> x < 2 ^ 32 \<longrightarrow>
          storeSpeed c (Finite x) = Inr (c\<lparr>processorSpeedMHz := word_of_int \<lfloor>x\<rfloor>\<rparr>))
   \<and> (processorSpeedMHz c = 0 \<longrightarrow>
          extractProcessorSpeedFromModelName ''Intel(R) Xeon @ 2.40GHz'' c =
            Inr (c\<lparr>processorSpeedMHz := 2400\<rparr>)
          \<and> extractProcessorSpeedFromModelName ''Model @ 2400MHz'' c =
            Inr (c\<lparr>processorSpeedMHz := 2400\<rparr>)
          \<and> extractProcessorSpeedFromModelName ''Model @ 0.933'' c =
            Inr (c\<lparr>processorSpeedMHz := 933\<rparr>)
          \<and> extractProcessorSpeedFromModelName ''Model @ 150'' c =
            Inr (c\<lparr>processorSpeedMHz := 150\<rparr>)
          \<and> extractProcessorSpeedFromModelName ''Model'' c = Inr c)"
proof (intro conjI impI allI)
  assume "strstr str ''@'' = None"
  then show "extractProcessorSpeedFromModelName str c = Inr c" by (rule extract_no_at)
next
  assume "processorSpeedMHz c \<noteq> 0"
  then show "extractProcessorSpeedFromModelName str c = Inr c" by (rule extract_locked)
next
  fix pre rest v u
  assume a: "str = pre @ CHR ''@'' # rest \<and> CHR ''@'' \<notin> set pre \<and> processorSpeedMHz c = 0
          \<and> strtod rest = (v, u)"
  then have s: "strstr str ''@'' = Some (CHR ''@'' # rest)" by (simp add: strstr_at_first)
  from a have "strtod (tl (CHR ''@'' # rest)) = (v, u)" by simp
  from extract_unlocked [OF s _ this] a
  show "extractProcessorSpeedFromModelName str c =
            storeSpeed c
              (if take 3 (dropWhile isspace u) = ''GHz''
                  \<or> (take 3 (dropWhile isspace u) \<noteq> ''MHz'' \<and> dless v (Finite 100))
               then dadd (dmul (Finite 1000) v) (Finite (1 / 2))
               else dadd v (Finite (1 / 2)))"
    by simp
next
  fix x :: rat assume "0 \<le> x \<and> x < 2 ^ 32"
  then show "storeSpeed c (Finite x) = Inr (c\<lparr>processorSpeedMHz := word_of_int \<lfloor>x\<rfloor>\<rparr>)"
    by (simp add: storeSpeed_in_range)
next
  assume z: "processorSpeedMHz c = 0"
  show "extractProcessorSpeedFromModelName ''Intel(R) Xeon @ 2.40GHz'' c =
            Inr (c\<lparr>processorSpeedMHz := 2400\<rparr>)"
    by (rule extract_value [OF extract_xeon z])
  show "extractProcessorSpeedFromModelName ''Model @ 2400MHz'' c =
            Inr (c\<lparr>processorSpeedMHz := 2400\<rparr>)"
    by (rule extract_value [OF extract_2400MHz z])
  show "extractProcessorSpeedFromModelName ''Model @ 0.933'' c =
            Inr (c\<lparr>processorSpeedMHz := 933\<rparr>)"
    by (rule extract_value [OF extract_0933 z])
  show "extractProcessorSpeedFromModelName ''Model @ 150'' c =
            Inr (c\<lparr>processorSpeedMHz := 150\<rparr>)"
    by (rule extract_value [OF extract_150 z])
  show "extractProcessorSpeedFromModelName ''Model'' c = Inr c"
    by (rule extract_no_at) (simp add: strstr_at)
qed

text \<open>
  The first model name from a stored 0, the third one with 2400 stored, and a name
  without \<open>@\<close>.
\<close>

theorem extractProcessorSpeedFromModelName_rule_witness:
  "extractProcessorSpeedFromModelName ''Intel(R) Xeon @ 2.40GHz'' (parsedCollection 0 []) =
     Inr (parsedCollection 2400 [])
   \<and> extractProcessorSpeedFromModelName ''Model @ 0.933'' (parsedCollection 2400 []) =
     Inr (parsedCollection 2400 [])
   \<and> extractProcessorSpeedFromModelName ''Model'' (parsedCollection 0 []) =
     Inr (parsedCollection 0 [])"
  using extractProcessorSpeedFromModelName_rule [of "''Model @ 0.933''" "parsedCollection 2400 []"]
    extractProcessorSpeedFromModelName_rule [of "''Model''" "parsedCollection 0 []"]
  by (simp add: parsedCollection_def)

text \<open>
  C2 as stated fails in two places. A first value whose number is not numeric stores 0,
  and the next value with an \<open>@\<close> changes the stored speed to 2400. And the
  stored value is not always the number rounded half up: \<open>0.49999999999999994\<close>
  is below one half and rounds to 0, but adding \<open>0.5\<close> to it in \<open>double\<close>
  gives 1, which is stored.
\<close>

theorem extractProcessorSpeedFromModelName_counterexample:
  "extractAll [''Model @ abc''] (parsedCollection 0 []) = Inr (parsedCollection 0 [])
   \<and> extractAll [''Model @ abc'', ''Model @ 2.40GHz''] (parsedCollection 0 []) =
       Inr (parsedCollection 2400 [])
   \<and> extractProcessorSpeedFromModelName ''Model @ 0.49999999999999994MHz''
       (parsedCollection 0 []) = Inr (parsedCollection 1 [])
   \<and> \<lfloor>(49999999999999994 / 10 ^ 17 :: rat) + 1 / 2\<rfloor> = 0"
proof -
  have "\<lfloor>(49999999999999994 / 10 ^ 17 :: rat) + 1 / 2\<rfloor> = 0" by (simp add: floor_eq_iff)
  then show ?thesis
    by (simp add: extract_abc extract_240GHz extract_below_half)
qed

text \<open>
  C10. A first extraction that stores 0 leaves the collection exactly as it was, so a
  second one runs as if the first had not: the guard looks at the stored value only.
  After a value whose number is not numeric (\<open>abc\<close>), or one that rounds to 0
  (\<open>0.4MHz\<close>), the next value with an \<open>@\<close> sets the speed.
\<close>

theorem zero_speed_is_not_locked:
  "(processorSpeedMHz c = 0 \<and> extractProcessorSpeedFromModelName first c = Inr c1
      \<and> processorSpeedMHz c1 = 0 \<longrightarrow>
      c1 = c \<and> extractAll [first, second] c = extractProcessorSpeedFromModelName second c)
   \<and> (processorSpeedMHz c = 0 \<longrightarrow>
        extractAll [''Model @ abc'', ''Model @ 2.40GHz''] c =
          Inr (c\<lparr>processorSpeedMHz := 2400\<rparr>)
        \<and> extractAll [''Model @ 0.4MHz'', ''Model @ 2.40GHz''] c =
          Inr (c\<lparr>processorSpeedMHz := 2400\<rparr>))"
proof (intro conjI impI)
  assume "processorSpeedMHz c = 0 \<and> extractProcessorSpeedFromModelName first c = Inr c1
      \<and> processorSpeedMHz c1 = 0"
  then have "c1 = c \<and> extractAll [first, second] c = extractProcessorSpeedFromModelName second c"
    by (intro extractAll_zero_first) simp_all
  then show "c1 = c"
    and "extractAll [first, second] c = extractProcessorSpeedFromModelName second c"
    by simp_all
next
  assume z: "processorSpeedMHz c = 0"
  have abc: "extractProcessorSpeedFromModelName ''Model @ abc'' c = Inr c"
    using extract_value [OF extract_abc z] z by (simp add: speed_zero_update)
  have low: "extractProcessorSpeedFromModelName ''Model @ 0.4MHz'' c = Inr c"
    using extract_value [OF extract_04MHz z] z by (simp add: speed_zero_update)
  note ghz = extract_value [OF extract_240GHz z]
  show "extractAll [''Model @ abc'', ''Model @ 2.40GHz''] c =
          Inr (c\<lparr>processorSpeedMHz := 2400\<rparr>)"
    by (simp add: abc ghz)
  show "extractAll [''Model @ 0.4MHz'', ''Model @ 2.40GHz''] c =
          Inr (c\<lparr>processorSpeedMHz := 2400\<rparr>)"
    by (simp add: low ghz)
qed

text \<open>The two pairs of model names on the collection as the parser starts with it.\<close>

theorem zero_speed_is_not_locked_witness:
  "extractAll [''Model @ abc'', ''Model @ 2.40GHz''] (parsedCollection 0 []) =
     Inr (parsedCollection 2400 [])
   \<and> extractAll [''Model @ 0.4MHz'', ''Model @ 2.40GHz''] (parsedCollection 0 []) =
     Inr (parsedCollection 2400 [])"
  using zero_speed_is_not_locked [of "parsedCollection 0 []"]
  by (simp add: parsedCollection_def)

text \<open>
  C5. In every state the manager reaches, \<open>isThreadsBindAllowed\<close> is true exactly
  when none of the listed environment variables was set when the constructor ran and
  the GPU flag is now false. When it is false, \<open>bindOpenMpThreads\<close> and
  \<open>bindCurrentThreadToNonPrimaryCoreIfPossible\<close> return without a change: no
  affinity mask is set, and the number of OpenMP threads stays.
\<close>

theorem isThreadsBindAllowed_policy:
  assumes "reachable getenv aff c m"
  shows "isThreadsBindAllowed m =
           ((\<forall>name\<in>set openMpEnvVars. getenv name = None) \<and> \<not> isGpuEnabled m)
       \<and> (\<not> isThreadsBindAllowed m \<longrightarrow>
            bindOpenMpThreads c m caller workers sys = Inr sys
            \<and> bindCurrentThreadToNonPrimaryCoreIfPossible c m self sys = Some (Inr sys))"
proof -
  from reachable_facts [OF assms]
  have "isAnyOpenMpEnvVarSpecified m = (\<exists>name\<in>set openMpEnvVars. getenv name \<noteq> None)"
    by simp
  then show ?thesis
    by (auto simp: isThreadsBindAllowed_def not_allowed_noop)
qed

text \<open>
  With \<open>OMP_NUM_THREADS\<close> set binding is not allowed and \<open>bindOpenMpThreads\<close>
  changes nothing; after \<open>setGpuEnabled\<close>
  \<open>bindCurrentThreadToNonPrimaryCoreIfPossible\<close> changes nothing.
\<close>

theorem isThreadsBindAllowed_policy_witness:
  "\<not> isThreadsBindAllowed
       \<lparr>isGpuEnabled = False, isAnyOpenMpEnvVarSpecified = True,
        currentCpuSet = {0..<16}, currentCoreSet = {0..<8}\<rparr>
   \<and> bindOpenMpThreads twoSockets
       \<lparr>isGpuEnabled = False, isAnyOpenMpEnvVarSpecified = True,
        currentCpuSet = {0..<16}, currentCoreSet = {0..<8}\<rparr>
       0 [1..<8] \<lparr>ompNumThreads = 16, affinity = \<lambda>self. {0..<16}\<rparr> =
     Inr \<lparr>ompNumThreads = 16, affinity = \<lambda>self. {0..<16}\<rparr>
   \<and> bindCurrentThreadToNonPrimaryCoreIfPossible twoSockets
       (setGpuEnabled \<lparr>isGpuEnabled = False, isAnyOpenMpEnvVarSpecified = False,
        currentCpuSet = {0..<16}, currentCoreSet = {0..<8}\<rparr>)
       5 \<lparr>ompNumThreads = 16, affinity = \<lambda>self. {0..<16}\<rparr> =
     Some (Inr \<lparr>ompNumThreads = 16, affinity = \<lambda>self. {0..<16}\<rparr>)"
proof -
  let ?env = "[''OMP_NUM_THREADS'' \<mapsto> ''4'']"
  let ?m = "\<lparr>isGpuEnabled = False, isAnyOpenMpEnvVarSpecified = True,
        currentCpuSet = {0..<16}, currentCoreSet = {0..<8 :: nat}\<rparr>"
  let ?g = "setGpuEnabled \<lparr>isGpuEnabled = False, isAnyOpenMpEnvVarSpecified = False,
        currentCpuSet = {0..<16}, currentCoreSet = {0..<8 :: nat}\<rparr>"
  have "\<exists>name\<in>set openMpEnvVars. ?env name \<noteq> None"
    by (simp add: openMpEnvVars_def)
  then have "OpenMpManager_ctor ?env (Some {0..<16}) twoSockets = Inr ?m"
    by (simp add: twoSockets_ctor_env)
  then have r: "reachable ?env (Some {0..<16}) twoSockets ?m"
    by (rule reachable.constructed)
  have g: "reachable (\<lambda>name. None) (Some {0..<16}) twoSockets ?g"
    by (intro reachable.gpuEnabled reachable.constructed twoSockets_ctor)
  from isThreadsBindAllowed_policy [OF r] isThreadsBindAllowed_policy [OF g]
  show ?thesis by (simp add: setGpuEnabled_def isThreadsBindAllowed_def)
qed

text \<open>
  C3 does not hold of the code. A topology source without a \<open>cpu cores\<close> line
  gives a record whose \<open>cpuCores\<close> is 0, so the total number of cores is 0 while
  there is one processor. With processor 0 in the affinity mask the constructor
  computes \<open>0 % 0\<close> in \<open>getCurrentCoreSet\<close>, and \<open>selectAllCoreCpus\<close>
  computes \<open>physicalCoreId % 0\<close> before its loop: neither function tests the
  divisor. A source that cannot be read gives no record: then no remainder is taken and
  the core set is empty, but binding is still allowed, and
  \<open>bindCurrentThreadToNonPrimaryCoreIfPossible\<close> ends in \<open>LOG(FATAL)\<close>.
\<close>

theorem getCurrentCoreSet_divides_by_zero:
  "totalNumberOfCpuCores (Collection_ctor 0 [Processor_ctor]) = 0
   \<and> OpenMpManager_ctor (\<lambda>name. None) (Some {0}) (Collection_ctor 0 [Processor_ctor])
       = Inl DivisionByZero
   \<and> selectAllCoreCpus (Collection_ctor 0 [Processor_ctor])
       \<lparr>isGpuEnabled = False, isAnyOpenMpEnvVarSpecified = False,
        currentCpuSet = {0}, currentCoreSet = {}\<rparr> CPU_ZERO 0
       = Some (Inl DivisionByZero)
   \<and> OpenMpManager_ctor (\<lambda>name. None) (Some {0}) (Collection_ctor 0 [])
       = Inr \<lparr>isGpuEnabled = False, isAnyOpenMpEnvVarSpecified = False,
              currentCpuSet = {0}, currentCoreSet = {}\<rparr>
   \<and> isThreadsBindAllowed
       \<lparr>isGpuEnabled = False, isAnyOpenMpEnvVarSpecified = False,
        currentCpuSet = {0}, currentCoreSet = {}\<rparr>
   \<and> bindCurrentThreadToNonPrimaryCoreIfPossible (Collection_ctor 0 [])
       \<lparr>isGpuEnabled = False, isAnyOpenMpEnvVarSpecified = False,
        currentCpuSet = {0}, currentCoreSet = {}\<rparr>
       5 \<lparr>ompNumThreads = 1, affinity = \<lambda>self. {0}\<rparr>
       = Some (Inl LogFatal)"
proof -
  let ?c = "Collection_ctor 0 [Processor_ctor]" and ?e = "Collection_ctor 0 []"
  let ?m = "\<lparr>isGpuEnabled = False, isAnyOpenMpEnvVarSpecified = False,
        currentCpuSet = {0 :: nat}, currentCoreSet = {} :: nat set\<rparr>"
  have t: "totalNumberOfCpuCores ?c = 0"
    by (simp add: Collection_ctor_def collectBasicCpuInformation_def parsedCollection_def
        updateCpuInformation_def Processor_ctor_def)
  have n: "getNumberOfProcessors ?c = 1"
    unfolding getNumberOfProcessors_def Collection_ctor_def collectBasicCpuInformation_def
      collectLoop_processors
    by (simp add: parsedCollection_def)
  have n0: "getNumberOfProcessors ?e = 0"
    by (simp add: getNumberOfProcessors_def Collection_ctor_def collectBasicCpuInformation_def
        parsedCollection_def)
  have env: "getOpenMpEnvVars (\<lambda>name. None) zeroInitialized = zeroInitialized"
    by (simp add: getOpenMpEnvVars_def getOpenMpEnvVarsLoop_eq zeroInitialized_def)
  have "getCurrentCoreSet ?c (zeroInitialized\<lparr>currentCpuSet := {0}\<rparr>) = Inl DivisionByZero"
    by (simp add: getCurrentCoreSet_def getTotalNumberOfCpuCores_def t n
        CPU_ISSET_def CPU_SETSIZE_def)
  then have bad: "OpenMpManager_ctor (\<lambda>name. None) (Some {0}) ?c = Inl DivisionByZero"
    by (simp add: OpenMpManager_ctor_def getCurrentCpuSet_def env)
  have sel: "selectAllCoreCpus ?c ?m CPU_ZERO 0 = Some (Inl DivisionByZero)"
    using t by (simp add: selectAllCoreCpus_def getTotalNumberOfCpuCores_def)
  have "getCurrentCoreSet ?e (zeroInitialized\<lparr>currentCpuSet := {0}\<rparr>) = Inr ?m"
    by (simp add: getCurrentCoreSet_def n0 zeroInitialized_def CPU_ZERO_def)
  then have empty: "OpenMpManager_ctor (\<lambda>name. None) (Some {0}) ?e = Inr ?m"
    by (simp add: OpenMpManager_ctor_def getCurrentCpuSet_def env)
  have allowed: "isThreadsBindAllowed ?m" by (simp add: isThreadsBindAllowed_def)
  have "CPU_COUNT {} = 0" by (simp add: CPU_COUNT_def)
  then have fatal: "bindCurrentThreadToNonPrimaryCoreIfPossible ?e ?m
       5 \<lparr>ompNumThreads = 1, affinity = \<lambda>self. {0}\<rparr> = Some (Inl LogFatal)"
    using allowed
    by (simp add: bindCurrentThreadToNonPrimaryCoreIfPossible_def
        bindCurrentThreadToLogicalCoreCpus_def getPhysicalCoreId_def n0)
  from t bad sel empty allowed fatal show ?thesis by (intro conjI)
qed

end
